theory Spec2Isabelle
  imports Complex_Main
begin

section \<open>Conventions of the embedding\<close>

text \<open>
  The synthesizer core is written in Python. Its unbounded integers are modelled as
  \<^typ>\<open>int\<close>, its strings as \<^typ>\<open>string\<close>. Signal values (levels, phases,
  filter registers, samples) are modelled as \<^typ>\<open>real\<close>: rounding in the signal
  path, of doubles and of the float32 buffers, is not modelled. The two functions whose
  results are compared for equality, the time-to-sample conversion and the clock's
  step duration, are modelled in double-precision arithmetic. Every exception the
  modelled code can raise is a value of \<open>py_error\<close>, returned on the left of a sum.
\<close>

datatype py_error = IndexError | ZeroDivisionError | ValueError | OverflowError

text \<open>Python's \<open>int(x)\<close> on a float truncates toward zero.\<close>

definition py_trunc :: "real \<Rightarrow> int" where
  "py_trunc x = (if 0 \<le> x then \<lfloor>x\<rfloor> else \<lceil>x\<rceil>)"

text \<open>
  A parameter value arriving with a SetParam event is a number: a Python int or a float.
  \<open>py_int\<close> and \<open>py_float\<close> are Python's \<open>int(value)\<close> and \<open>float(value)\<close>.
\<close>

datatype pyval = PInt int | PFloat real

fun py_int :: "pyval \<Rightarrow> int" where
  "py_int (PInt i) = i"
| "py_int (PFloat x) = py_trunc x"

fun py_float :: "pyval \<Rightarrow> real" where
  "py_float (PInt i) = of_int i"
| "py_float (PFloat x) = x"

text \<open>
  Python list indexing \<open>xs[i]\<close>: a negative index counts from the end, and an index
  outside \<open>-len(xs) .. len(xs)-1\<close> raises IndexError. \<open>py_index n i\<close> is the position
  read in a list of length \<open>n\<close>, or \<open>None\<close> where Python raises.
\<close>

definition py_index :: "nat \<Rightarrow> int \<Rightarrow> nat option" where
  "py_index n i =
     (if 0 \<le> i \<and> i < int n then Some (nat i)
      else if i < 0 \<and> - int n \<le> i then Some (nat (int n + i))
      else None)"

section \<open>Double-precision floats\<close>

text \<open>
  A Python float is an IEEE 754 binary64 number: a finite value, an infinity or NaN.
  A finite float is given by its real value (the two zeros are one value; no modelled
  operation tells them apart). Every arithmetic operation returns the exact result
  rounded to the nearest double, ties to the even significand.
\<close>

datatype pyfloat = Fin real | PInf | NInf | NaN

text \<open>Rounding to the nearest integer, ties to even.\<close>

definition round_half_even :: "real \<Rightarrow> int" where
  "round_half_even y =
     (let f = \<lfloor>y\<rfloor>; d = y - of_int f
      in if d < 1 / 2 then f else if 1 / 2 < d then f + 1 else if even f then f else f + 1)"

text \<open>
  The exponent of the unit in the last place of the double nearest to \<open>x\<close>: 52 below
  the binary exponent of \<open>x\<close>, and -1074 in the subnormal range.
\<close>

definition ulp_exponent :: "real \<Rightarrow> int" where
  "ulp_exponent x = max (- 1074) (\<lfloor>log 2 \<bar>x\<bar>\<rfloor> - 52)"

text \<open>The power of two with an integer exponent.\<close>

definition pow2 :: "int \<Rightarrow> real" where
  "pow2 e = 2 powr of_int e"

text \<open>
  \<open>rnd x\<close>: the double nearest to the real \<open>x\<close>, a multiple of the unit in the
  last place; an infinity when the rounded value reaches \<open>2 ^ 1024\<close>.
\<close>

definition rnd :: "real \<Rightarrow> pyfloat" where
  "rnd x =
     (if x = 0 then Fin 0
      else
        (let e = ulp_exponent x;
             y = of_int (round_half_even (x / pow2 e)) * pow2 e
         in if pow2 1024 \<le> \<bar>y\<bar> then (if 0 < x then PInf else NInf) else Fin y))"

text \<open>Python's \<open>a * b\<close> on floats.\<close>

fun dmul :: "pyfloat \<Rightarrow> pyfloat \<Rightarrow> pyfloat" where
  "dmul (Fin x) (Fin y) = rnd (x * y)"
| "dmul NaN b = NaN"
| "dmul a NaN = NaN"
| "dmul (Fin x) PInf = (if x = 0 then NaN else if 0 < x then PInf else NInf)"
| "dmul (Fin x) NInf = (if x = 0 then NaN else if 0 < x then NInf else PInf)"
| "dmul PInf (Fin y) = (if y = 0 then NaN else if 0 < y then PInf else NInf)"
| "dmul NInf (Fin y) = (if y = 0 then NaN else if 0 < y then NInf else PInf)"
| "dmul PInf PInf = PInf"
| "dmul PInf NInf = NInf"
| "dmul NInf PInf = NInf"
| "dmul NInf NInf = PInf"

text \<open>Python's \<open>a + b\<close>, \<open>-a\<close> and \<open>a - b\<close> on floats.\<close>

fun dadd :: "pyfloat \<Rightarrow> pyfloat \<Rightarrow> pyfloat" where
  "dadd (Fin x) (Fin y) = rnd (x + y)"
| "dadd NaN b = NaN"
| "dadd a NaN = NaN"
| "dadd (Fin x) b = b"
| "dadd a (Fin y) = a"
| "dadd PInf PInf = PInf"
| "dadd NInf NInf = NInf"
| "dadd PInf NInf = NaN"
| "dadd NInf PInf = NaN"

fun dneg :: "pyfloat \<Rightarrow> pyfloat" where
  "dneg (Fin x) = Fin (- x)"
| "dneg PInf = NInf"
| "dneg NInf = PInf"
| "dneg NaN = NaN"

definition dsub :: "pyfloat \<Rightarrow> pyfloat \<Rightarrow> pyfloat" where
  "dsub a b = dadd a (dneg b)"

text \<open>
  Python's \<open>a / b\<close> on floats: a zero divisor raises ZeroDivisionError, whatever the
  dividend is.
\<close>

fun ddiv :: "pyfloat \<Rightarrow> pyfloat \<Rightarrow> py_error + pyfloat" where
  "ddiv a (Fin y) =
     (if y = 0 then Inl ZeroDivisionError
      else case a of
        Fin x \<Rightarrow> Inr (rnd (x / y))
      | PInf \<Rightarrow> Inr (if 0 < y then PInf else NInf)
      | NInf \<Rightarrow> Inr (if 0 < y then NInf else PInf)
      | NaN \<Rightarrow> Inr NaN)"
| "ddiv NaN b = Inr NaN"
| "ddiv a NaN = Inr NaN"
| "ddiv (Fin x) b = Inr (Fin 0)"
| "ddiv a b = Inr NaN"

text \<open>Python's \<open>int(x)\<close> on a float: truncation toward zero; infinities and NaN raise.\<close>

fun int_of_float :: "pyfloat \<Rightarrow> py_error + int" where
  "int_of_float (Fin x) = Inr (py_trunc x)"
| "int_of_float PInf = Inl OverflowError"
| "int_of_float NInf = Inl OverflowError"
| "int_of_float NaN = Inl ValueError"

section \<open>ADSR envelope (audio/envelope.py)\<close>

datatype EnvState = IDLE | ATTACK | DECAY | SUSTAIN | RELEASE

definition SAMPLE_RATE :: real where
  "SAMPLE_RATE = 44100"

text \<open>
  \<open>_time_to_samples\<close>: \<open>max(1, int(seconds * SAMPLE_RATE))\<close>, the product a double.
\<close>

definition time_to_samples :: "pyfloat \<Rightarrow> py_error + int" where
  "time_to_samples seconds =
     (case int_of_float (dmul seconds (Fin SAMPLE_RATE)) of
        Inl err \<Rightarrow> Inl err
      | Inr n \<Rightarrow> Inr (max 1 n))"

text \<open>
  The count a tick divides by: the result of \<open>_time_to_samples\<close> for one of the
  envelope's times. A tick is modelled without a failing branch; for a time so long
  that the call raises (its product with the sample rate overflows) the count is
  taken as 1.
\<close>

definition sample_count :: "real \<Rightarrow> int" where
  "sample_count seconds = (case time_to_samples (Fin seconds) of Inr n \<Rightarrow> n | Inl err \<Rightarrow> 1)"

record ADSREnvelope =
  attack :: real
  decay :: real
  sustain :: real
  release :: real
  state :: EnvState
  level :: real
  release_level :: real

definition ADSREnvelope_init :: "real \<Rightarrow> real \<Rightarrow> real \<Rightarrow> real \<Rightarrow> ADSREnvelope" where
  "ADSREnvelope_init a d s r =
     \<lparr>attack = a, decay = d, sustain = s, release = r,
      state = IDLE, level = 0, release_level = 0\<rparr>"

definition env_note_on :: "ADSREnvelope \<Rightarrow> ADSREnvelope" where
  "env_note_on e = e\<lparr>state := ATTACK, release_level := level e\<rparr>"

definition env_note_off :: "ADSREnvelope \<Rightarrow> ADSREnvelope" where
  "env_note_off e =
     (if state e \<noteq> IDLE then e\<lparr>release_level := level e, state := RELEASE\<rparr> else e)"

definition env_is_active :: "ADSREnvelope \<Rightarrow> bool" where
  "env_is_active e = (state e \<noteq> IDLE)"

text \<open>\<open>_tick\<close>: one sample of the envelope; returns the value and the updated envelope.\<close>

fun tick :: "ADSREnvelope \<Rightarrow> real \<times> ADSREnvelope" where
  "tick e =
     (case state e of
        IDLE \<Rightarrow> (0, e)
      | ATTACK \<Rightarrow>
          (let atk_rate = 1 / of_int (sample_count (attack e));
               l = level e + atk_rate
           in if 1 \<le> l then (1, e\<lparr>level := 1, state := DECAY\<rparr>)
              else (l, e\<lparr>level := l\<rparr>))
      | DECAY \<Rightarrow>
          (let dec_rate = (1 - sustain e) / of_int (sample_count (decay e));
               l = level e - dec_rate
           in if l \<le> sustain e then (sustain e, e\<lparr>level := sustain e, state := SUSTAIN\<rparr>)
              else (l, e\<lparr>level := l\<rparr>))
      | SUSTAIN \<Rightarrow> (sustain e, e\<lparr>level := sustain e\<rparr>)
      | RELEASE \<Rightarrow>
          (let rel_rate = release_level e / of_int (sample_count (release e));
               l = level e - rel_rate
           in if l \<le> 0 then (0, e\<lparr>level := 0, state := IDLE\<rparr>)
              else (l, e\<lparr>level := l\<rparr>)))"

text \<open>\<open>render_block\<close>: \<open>n_frames\<close> successive ticks, collected in order.\<close>

fun env_render_block :: "ADSREnvelope \<Rightarrow> nat \<Rightarrow> real list \<times> ADSREnvelope" where
  "env_render_block e 0 = ([], e)"
| "env_render_block e (Suc n) =
     (let (v, e1) = tick e; (vs, e2) = env_render_block e1 n in (v # vs, e2))"

section \<open>State-variable filter (audio/filter.py)\<close>

record SVFilter =
  cutoff :: real
  resonance :: real
  mode :: string
  low :: real
  band :: real

definition SVFilter_init :: "real \<Rightarrow> real \<Rightarrow> string \<Rightarrow> SVFilter" where
  "SVFilter_init c r m = \<lparr>cutoff = c, resonance = r, mode = m, low = 0, band = 0\<rparr>"

text \<open>The cutoff limited to the safe range, \<open>fc\<close> in \<open>render_block\<close>.\<close>

definition clamped_cutoff :: "SVFilter \<Rightarrow> real" where
  "clamped_cutoff flt = min (max (cutoff flt) 20) (SAMPLE_RATE * 0.49)"

text \<open>The per-sample loop of \<open>render_block\<close>, on the local registers \<open>low\<close> and \<open>band\<close>.\<close>

fun svf_loop :: "real \<Rightarrow> real \<Rightarrow> string \<Rightarrow> real list \<Rightarrow> real \<Rightarrow> real
    \<Rightarrow> real list \<times> real \<times> real" where
  "svf_loop f q m [] lo bd = ([], lo, bd)"
| "svf_loop f q m (s # ss) lo bd =
     (let lo1 = lo + f * bd;
          high = s - lo1 - q * bd;
          bd1 = f * high + bd;
          y = (if m = ''lp'' then lo1 else if m = ''hp'' then high else bd1);
          (ys, lo2, bd2) = svf_loop f q m ss lo1 bd1
      in (y # ys, lo2, bd2))"

definition svf_render_block :: "SVFilter \<Rightarrow> real list \<Rightarrow> real list \<times> SVFilter" where
  "svf_render_block flt signal =
     (let fc = clamped_cutoff flt;
          f = 2 * sin (pi * fc / SAMPLE_RATE);
          q = 2 - 1.99 * resonance flt;
          (out, lo, bd) = svf_loop f q (mode flt) signal (low flt) (band flt)
      in (out, flt\<lparr>low := lo, band := bd\<rparr>))"

text \<open>Successive render calls on the same filter, one per signal block.\<close>

fun svf_render_blocks :: "SVFilter \<Rightarrow> real list list \<Rightarrow> SVFilter" where
  "svf_render_blocks flt [] = flt"
| "svf_render_blocks flt (b # bs) = svf_render_blocks (snd (svf_render_block flt b)) bs"

section \<open>Clock (sequencer/clock.py)\<close>

record Clock =
  bpm :: pyfloat
  swing :: pyfloat
  n_steps :: int
  step :: int

definition Clock_init :: "pyfloat \<Rightarrow> Clock" where
  "Clock_init b = \<lparr>bpm = b, swing = Fin 0, n_steps = 16, step = 0\<rparr>"

text \<open>\<open>base = 60.0 / self.bpm / 4.0\<close>, the first line of \<open>_step_duration\<close>.\<close>

definition base_duration :: "Clock \<Rightarrow> py_error + pyfloat" where
  "base_duration c =
     (case ddiv (Fin 60) (bpm c) of
        Inl err \<Rightarrow> Inl err
      | Inr q \<Rightarrow> ddiv q (Fin 4))"

text \<open>\<open>_step_duration\<close>; the literal \<open>0.33\<close> is the double nearest to 33/100.\<close>

definition step_duration :: "Clock \<Rightarrow> int \<Rightarrow> py_error + pyfloat" where
  "step_duration c st =
     (case base_duration c of
        Inl err \<Rightarrow> Inl err
      | Inr base \<Rightarrow>
          if swing c = Fin 0 then Inr base
          else
            (let swing_amount = dmul (swing c) (rnd 0.33)
             in if st mod 2 = 0 then Inr (dmul base (dadd (Fin 1) swing_amount))
                else Inr (dmul base (dsub (Fin 1) swing_amount))))"

section \<open>Operations on an envelope\<close>

datatype env_op = OpNoteOn | OpNoteOff | OpTick
  | SetAttack real | SetDecay real | SetSustain real | SetRelease real

fun env_apply :: "ADSREnvelope \<Rightarrow> env_op \<Rightarrow> ADSREnvelope" where
  "env_apply e OpNoteOn = env_note_on e"
| "env_apply e OpNoteOff = env_note_off e"
| "env_apply e OpTick = snd (tick e)"
| "env_apply e (SetAttack a) = e\<lparr>attack := a\<rparr>"
| "env_apply e (SetDecay d) = e\<lparr>decay := d\<rparr>"
| "env_apply e (SetSustain s) = e\<lparr>sustain := s\<rparr>"
| "env_apply e (SetRelease r) = e\<lparr>release := r\<rparr>"

fun op_in_range :: "env_op \<Rightarrow> bool" where
  "op_in_range (SetAttack a) = (0.001 \<le> a)"
| "op_in_range (SetDecay d) = (0.001 \<le> d)"
| "op_in_range (SetSustain s) = (0 \<le> s \<and> s \<le> 1)"
| "op_in_range (SetRelease r) = (0.001 \<le> r)"
| "op_in_range _ = True"

definition params_in_range :: "real \<Rightarrow> real \<Rightarrow> real \<Rightarrow> real \<Rightarrow> bool" where
  "params_in_range a d s r = (0.001 \<le> a \<and> 0.001 \<le> d \<and> 0 \<le> s \<and> s \<le> 1 \<and> 0.001 \<le> r)"

definition env_inv :: "ADSREnvelope \<Rightarrow> bool" where
  "env_inv e = (0 \<le> level e \<and> level e \<le> 1 \<and> 0 \<le> release_level e
                 \<and> 0 \<le> sustain e \<and> sustain e \<le> 1)"

section \<open>Strings as the parameter names use them\<close>

text \<open>Python's \<open>s.startswith(p)\<close>.\<close>

definition startswith :: "string \<Rightarrow> string \<Rightarrow> bool" where
  "startswith s p = (take (length p) s = p)"

text \<open>
  Python's \<open>name.split("_", 1)\<close>: the name cut at its first underscore, or the name
  alone when it has none.
\<close>

definition split_underscore :: "string \<Rightarrow> string list" where
  "split_underscore s =
     (if CHR ''_'' \<in> set s
      then [takeWhile (\<lambda>c. c \<noteq> CHR ''_'') s, tl (dropWhile (\<lambda>c. c \<noteq> CHR ''_'') s)]
      else [s])"

text \<open>
  Python's \<open>int(s)\<close> on a string without underscores (the only strings it is applied
  to here, a piece of \<open>split_underscore\<close>): surrounding whitespace is dropped, one sign
  is allowed, and at least one decimal digit must follow; anything else raises
  ValueError. Characters are code points below 256, where the whitespace of Python is
  9 to 13, 28 to 32, 133 and 160 and the decimal digits are 48 to 57.
\<close>

definition is_space :: "char \<Rightarrow> bool" where
  "is_space c = ((of_char c :: nat) \<in> {9, 10, 11, 12, 13, 28, 29, 30, 31, 32, 133, 160})"

definition is_digit :: "char \<Rightarrow> bool" where
  "is_digit c = (48 \<le> (of_char c :: nat) \<and> (of_char c :: nat) \<le> 57)"

definition strip :: "string \<Rightarrow> string" where
  "strip s = rev (dropWhile is_space (rev (dropWhile is_space s)))"

definition digits_value :: "string \<Rightarrow> int" where
  "digits_value ds = foldl (\<lambda>acc c. 10 * acc + (of_char c - 48)) 0 ds"

definition int_of_string :: "string \<Rightarrow> py_error + int" where
  "int_of_string s =
     (let t = strip s;
          (sgn, ds) = (case t of
                         c # r \<Rightarrow> if c = CHR ''-'' then (- 1, r)
                                  else if c = CHR ''+'' then (1, r) else (1, t)
                       | [] \<Rightarrow> (1, t))
      in if ds \<noteq> [] \<and> list_all is_digit ds then Inr (sgn * digits_value ds)
         else Inl ValueError)"

section \<open>Oscillator (audio/oscillator.py)\<close>

definition WAVE_NAMES :: "string list" where
  "WAVE_NAMES = [''sine'', ''saw'', ''square'', ''triangle'']"

definition midi_to_hz :: "int \<Rightarrow> real" where
  "midi_to_hz note = 440 * (2 powr ((of_int note - 69) / 12))"

record WavetableOscillator =
  wave :: string
  osc_phase :: real

definition WavetableOscillator_init :: "string \<Rightarrow> WavetableOscillator" where
  "WavetableOscillator_init w = \<lparr>wave = w, osc_phase = 0\<rparr>"

definition set_wave :: "WavetableOscillator \<Rightarrow> string \<Rightarrow> WavetableOscillator" where
  "set_wave osc w = osc\<lparr>wave := w\<rparr>"

definition reset_phase :: "WavetableOscillator \<Rightarrow> WavetableOscillator" where
  "reset_phase osc = osc\<lparr>osc_phase := 0\<rparr>"

text \<open>\<open>WAVE_NAMES[int(value) % len(WAVE_NAMES)]\<close>, as the engines select a wave.\<close>

definition wave_of_value :: "pyval \<Rightarrow> string" where
  "wave_of_value v = WAVE_NAMES ! nat (py_int v mod int (length WAVE_NAMES))"

section \<open>FM engine (audio/engines/fm.py)\<close>

text \<open>Per operator: the operators whose output modulates it, and whether it is a carrier.\<close>

definition ALGORITHMS :: "(nat list \<times> bool) list list" where
  "ALGORITHMS =
     [[([], False), ([0], False), ([1], False), ([2], True)],
      [([], False), ([0], False), ([1], True), ([0], True)],
      [([], False), ([0], True), ([0], True), ([], True)],
      [([], True), ([], True), ([0, 1], False), ([2], False)],
      [([], False), ([0], True), ([0], True), ([], True)],
      [([], True), ([], True), ([], True), ([], True)]]"


definition N_ALGORITHMS :: nat where
  "N_ALGORITHMS = length ALGORITHMS"

record FMOperator =
  ratio :: real
  op_level :: real
  feedback :: real
  op_env :: ADSREnvelope
  phase :: real
  last_out :: real

definition FMOperator_init :: FMOperator where
  "FMOperator_init =
     \<lparr>ratio = 1, op_level = 0.7, feedback = 0,
      op_env = ADSREnvelope_init 0.005 0.2 0.5 0.4, phase = 0, last_out = 0\<rparr>"


definition op_note_on :: "FMOperator \<Rightarrow> FMOperator" where
  "op_note_on opr = opr\<lparr>op_env := env_note_on (op_env opr), phase := 0, last_out := 0\<rparr>"

definition op_note_off :: "FMOperator \<Rightarrow> FMOperator" where
  "op_note_off opr = opr\<lparr>op_env := env_note_off (op_env opr)\<rparr>"

record FMEngine =
  ops :: "FMOperator list"
  algorithm :: int
  fm_note_freq :: real
  fm_velocity_scale :: real

definition FMEngine_init :: FMEngine where
  "FMEngine_init =
     \<lparr>ops = [FMOperator_init\<lparr>ratio := 1\<rparr>, FMOperator_init\<lparr>ratio := 2\<rparr>,
             FMOperator_init\<lparr>ratio := 3\<rparr>, FMOperator_init\<lparr>ratio := 1\<rparr>],
      algorithm = 0, fm_note_freq = 440, fm_velocity_scale = 1\<rparr>"

definition fm_is_active :: "FMEngine \<Rightarrow> bool" where
  "fm_is_active e = list_ex (\<lambda>opr. env_is_active (op_env opr)) (ops e)"

definition fm_note_on :: "FMEngine \<Rightarrow> int \<Rightarrow> int \<Rightarrow> FMEngine" where
  "fm_note_on e note vel =
     e\<lparr>fm_note_freq := midi_to_hz note, fm_velocity_scale := of_int vel / 127,
       ops := map op_note_on (ops e)\<rparr>"

definition fm_note_off :: "FMEngine \<Rightarrow> FMEngine" where
  "fm_note_off e = e\<lparr>ops := map op_note_off (ops e)\<rparr>"





text \<open>The assignment \<open>set_param\<close> makes to operator \<open>opr\<close> for the attribute \<open>attr\<close>.\<close>

definition fm_set_attr :: "FMOperator \<Rightarrow> string \<Rightarrow> pyval \<Rightarrow> FMOperator" where
  "fm_set_attr opr attr v =
     (if attr = ''ratio'' then opr\<lparr>ratio := max 0.01 (py_float v)\<rparr>
      else if attr = ''level'' then opr\<lparr>op_level := py_float v\<rparr>
      else if attr = ''feedback'' then opr\<lparr>feedback := py_float v\<rparr>
      else if attr = ''attack'' then opr\<lparr>op_env := (op_env opr)\<lparr>attack := max 0.001 (py_float v)\<rparr>\<rparr>
      else if attr = ''decay'' then opr\<lparr>op_env := (op_env opr)\<lparr>decay := max 0.001 (py_float v)\<rparr>\<rparr>
      else if attr = ''sustain'' then opr\<lparr>op_env := (op_env opr)\<lparr>sustain := py_float v\<rparr>\<rparr>
      else if attr = ''release'' then opr\<lparr>op_env := (op_env opr)\<lparr>release := max 0.001 (py_float v)\<rparr>\<rparr>
      else opr)"

definition fm_set_param :: "FMEngine \<Rightarrow> string \<Rightarrow> pyval \<Rightarrow> py_error + FMEngine" where
  "fm_set_param e name v =
     (if name = ''algorithm'' then Inr (e\<lparr>algorithm := py_int v mod int N_ALGORITHMS\<rparr>)
      else case split_underscore name of
        [p0, attr] \<Rightarrow>
          if startswith p0 ''op'' then
            (case int_of_string (drop 2 p0) of
               Inl err \<Rightarrow> Inr e
             | Inr op_idx \<Rightarrow>
                 (case py_index (length (ops e)) op_idx of
                    None \<Rightarrow> Inl IndexError
                  | Some j \<Rightarrow> Inr (e\<lparr>ops := (ops e)[j := fm_set_attr (ops e ! j) attr v]\<rparr>)))
          else Inr e
      | _ \<Rightarrow> Inr e)"

section \<open>Vector engine (audio/engines/vector.py)\<close>

text \<open>\<open>["lp", "hp", "bp"][int(value) % 3]\<close>, as the engines select a filter mode.\<close>

definition filter_mode_of_value :: "pyval \<Rightarrow> string" where
  "filter_mode_of_value v = [''lp'', ''hp'', ''bp''] ! nat (py_int v mod 3)"

record VectorEngine =
  oscs :: "WavetableOscillator list"
  xy :: "real list"
  lfo_rate :: real
  lfo_depth :: real
  lfo_phase :: real
  vec_filt :: SVFilter
  vec_env :: ADSREnvelope
  vec_note_freq :: real
  vec_velocity_scale :: real

definition VectorEngine_init :: VectorEngine where
  "VectorEngine_init =
     \<lparr>oscs = map WavetableOscillator_init [''sine'', ''saw'', ''square'', ''triangle''],
      xy = [0.5, 0.5], lfo_rate = 0.5, lfo_depth = 0, lfo_phase = 0,
      vec_filt = SVFilter_init 4000 0.2 ''lp'',
      vec_env = ADSREnvelope_init 0.01 0.2 0.6 0.5,
      vec_note_freq = 440, vec_velocity_scale = 1\<rparr>"

definition vector_is_active :: "VectorEngine \<Rightarrow> bool" where
  "vector_is_active e = env_is_active (vec_env e)"

definition vector_note_on :: "VectorEngine \<Rightarrow> int \<Rightarrow> int \<Rightarrow> VectorEngine" where
  "vector_note_on e note vel =
     e\<lparr>vec_note_freq := midi_to_hz note, vec_velocity_scale := of_int vel / 127,
       vec_env := env_note_on (vec_env e), oscs := map reset_phase (oscs e)\<rparr>"

definition vector_note_off :: "VectorEngine \<Rightarrow> VectorEngine" where
  "vector_note_off e = e\<lparr>vec_env := env_note_off (vec_env e)\<rparr>"

text \<open>The dictionary \<open>{"osc_a": 0, "osc_b": 1, "osc_c": 2, "osc_d": 3}\<close> of \<open>set_param\<close>.\<close>

definition osc_slots :: "(string \<times> nat) list" where
  "osc_slots = [(''osc_a'', 0), (''osc_b'', 1), (''osc_c'', 2), (''osc_d'', 3)]"

definition vector_set_param :: "VectorEngine \<Rightarrow> string \<Rightarrow> pyval \<Rightarrow> VectorEngine" where
  "vector_set_param e name v =
     (if startswith name ''osc_'' then
        (case map_of osc_slots name of
           Some idx \<Rightarrow> e\<lparr>oscs := (oscs e)[idx := set_wave (oscs e ! idx) (wave_of_value v)]\<rparr>
         | None \<Rightarrow> e)
      else if name = ''xy_x'' then e\<lparr>xy := (xy e)[0 := py_float v]\<rparr>
      else if name = ''xy_y'' then e\<lparr>xy := (xy e)[1 := py_float v]\<rparr>
      else if name = ''lfo_rate'' then e\<lparr>lfo_rate := max 0.01 (py_float v)\<rparr>
      else if name = ''lfo_depth'' then e\<lparr>lfo_depth := py_float v\<rparr>
      else if name = ''filter_cutoff'' then e\<lparr>vec_filt := (vec_filt e)\<lparr>cutoff := py_float v\<rparr>\<rparr>
      else if name = ''filter_res'' then e\<lparr>vec_filt := (vec_filt e)\<lparr>resonance := py_float v\<rparr>\<rparr>
      else if name = ''filter_mode'' then
        e\<lparr>vec_filt := (vec_filt e)\<lparr>mode := filter_mode_of_value v\<rparr>\<rparr>
      else if name = ''attack'' then e\<lparr>vec_env := (vec_env e)\<lparr>attack := max 0.001 (py_float v)\<rparr>\<rparr>
      else if name = ''decay'' then e\<lparr>vec_env := (vec_env e)\<lparr>decay := max 0.001 (py_float v)\<rparr>\<rparr>
      else if name = ''sustain'' then e\<lparr>vec_env := (vec_env e)\<lparr>sustain := py_float v\<rparr>\<rparr>
      else if name = ''release'' then e\<lparr>vec_env := (vec_env e)\<lparr>release := max 0.001 (py_float v)\<rparr>\<rparr>
      else e)"

section \<open>Subtractive engine (audio/engines/subtractive.py)\<close>

definition ARP_MODES :: "string list" where
  "ARP_MODES = [''off'', ''up'', ''down'', ''random'', ''chord'']"

record SubtractiveEngine =
  osc1 :: WavetableOscillator
  osc2 :: WavetableOscillator
  osc_mix :: real
  detune :: real
  octave :: int
  filt :: SVFilter
  filter_env_amt :: real
  filter_base_cutoff :: real
  amp_env :: ADSREnvelope
  filt_env :: ADSREnvelope
  arp_mode :: string
  arp_octaves :: int
  arp_notes :: "int list"
  arp_index :: int
  sub_note_freq :: real
  sub_velocity_scale :: real
  held_notes :: "int list"

definition SubtractiveEngine_init :: SubtractiveEngine where
  "SubtractiveEngine_init =
     \<lparr>osc1 = WavetableOscillator_init ''saw'', osc2 = WavetableOscillator_init ''square'',
      osc_mix = 0.5, detune = 0, octave = 0,
      filt = SVFilter_init 2000 0.3 ''lp'', filter_env_amt = 0.5, filter_base_cutoff = 2000,
      amp_env = ADSREnvelope_init 0.005 0.15 0.7 0.3,
      filt_env = ADSREnvelope_init 0.005 0.25 0.3 0.3,
      arp_mode = ''off'', arp_octaves = 1, arp_notes = [], arp_index = 0,
      sub_note_freq = 440, sub_velocity_scale = 1, held_notes = []\<rparr>"

definition subtractive_is_active :: "SubtractiveEngine \<Rightarrow> bool" where
  "subtractive_is_active e = env_is_active (amp_env e)"

definition trigger_note :: "SubtractiveEngine \<Rightarrow> int \<Rightarrow> SubtractiveEngine" where
  "trigger_note e note =
     (let shifted = note + octave e * 12
      in e\<lparr>sub_note_freq := midi_to_hz shifted,
           amp_env := env_note_on (amp_env e), filt_env := env_note_on (filt_env e),
           osc1 := reset_phase (osc1 e), osc2 := reset_phase (osc2 e)\<rparr>)"

text \<open>
  \<open>_rebuild_arp_sequence\<close>. The library call \<open>random.shuffle\<close> is the parameter
  \<open>shuffle\<close>. A mode that is none of the four named ones leaves the sequence as it
  was and still resets the index.
\<close>

definition rebuild_arp_sequence :: "(int list \<Rightarrow> int list) \<Rightarrow> SubtractiveEngine
    \<Rightarrow> SubtractiveEngine" where
  "rebuild_arp_sequence shuffle e =
     (if held_notes e = [] then e\<lparr>arp_notes := []\<rparr>
      else
        (let base = sort (held_notes e);
             notes = concat (map (\<lambda>oct_shift. map (\<lambda>n. n + int oct_shift * 12) base)
                               [0..<nat (arp_octaves e)]);
             e1 = (if arp_mode e = ''up'' then e\<lparr>arp_notes := notes\<rparr>
                   else if arp_mode e = ''down'' then e\<lparr>arp_notes := rev notes\<rparr>
                   else if arp_mode e = ''random'' then e\<lparr>arp_notes := shuffle notes\<rparr>
                   else if arp_mode e = ''chord'' then e\<lparr>arp_notes := notes\<rparr>
                   else e)
         in e1\<lparr>arp_index := 0\<rparr>))"

definition subtractive_note_on :: "(int list \<Rightarrow> int list) \<Rightarrow> SubtractiveEngine \<Rightarrow> int \<Rightarrow> int
    \<Rightarrow> SubtractiveEngine" where
  "subtractive_note_on shuffle e note vel =
     (let e1 = e\<lparr>sub_velocity_scale := of_int vel / 127\<rparr>;
          e2 = (if note \<notin> set (held_notes e1) then e1\<lparr>held_notes := held_notes e1 @ [note]\<rparr>
                else e1)
      in if arp_mode e2 = ''off'' then trigger_note e2 note
         else rebuild_arp_sequence shuffle e2)"

definition subtractive_note_off :: "SubtractiveEngine \<Rightarrow> SubtractiveEngine" where
  "subtractive_note_off e =
     e\<lparr>held_notes := [], amp_env := env_note_off (amp_env e),
       filt_env := env_note_off (filt_env e)\<rparr>"

definition subtractive_set_param :: "SubtractiveEngine \<Rightarrow> string \<Rightarrow> pyval \<Rightarrow> SubtractiveEngine" where
  "subtractive_set_param e name v =
     (if name = ''osc1_wave'' then e\<lparr>osc1 := set_wave (osc1 e) (wave_of_value v)\<rparr>
      else if name = ''osc2_wave'' then e\<lparr>osc2 := set_wave (osc2 e) (wave_of_value v)\<rparr>
      else if name = ''osc_mix'' then e\<lparr>osc_mix := py_float v\<rparr>
      else if name = ''detune'' then e\<lparr>detune := py_float v\<rparr>
      else if name = ''octave'' then e\<lparr>octave := py_int v\<rparr>
      else if name = ''filter_cutoff'' then
        e\<lparr>filter_base_cutoff := py_float v, filt := (filt e)\<lparr>cutoff := py_float v\<rparr>\<rparr>
      else if name = ''filter_res'' then e\<lparr>filt := (filt e)\<lparr>resonance := py_float v\<rparr>\<rparr>
      else if name = ''filter_mode'' then e\<lparr>filt := (filt e)\<lparr>mode := filter_mode_of_value v\<rparr>\<rparr>
      else if name = ''filter_env_amt'' then e\<lparr>filter_env_amt := py_float v\<rparr>
      else if name = ''amp_attack'' then e\<lparr>amp_env := (amp_env e)\<lparr>attack := max 0.001 (py_float v)\<rparr>\<rparr>
      else if name = ''amp_decay'' then e\<lparr>amp_env := (amp_env e)\<lparr>decay := max 0.001 (py_float v)\<rparr>\<rparr>
      else if name = ''amp_sustain'' then e\<lparr>amp_env := (amp_env e)\<lparr>sustain := py_float v\<rparr>\<rparr>
      else if name = ''amp_release'' then e\<lparr>amp_env := (amp_env e)\<lparr>release := max 0.001 (py_float v)\<rparr>\<rparr>
      else if name = ''filt_attack'' then e\<lparr>filt_env := (filt_env e)\<lparr>attack := max 0.001 (py_float v)\<rparr>\<rparr>
      else if name = ''filt_decay'' then e\<lparr>filt_env := (filt_env e)\<lparr>decay := max 0.001 (py_float v)\<rparr>\<rparr>
      else if name = ''filt_sustain'' then e\<lparr>filt_env := (filt_env e)\<lparr>sustain := py_float v\<rparr>\<rparr>
      else if name = ''filt_release'' then e\<lparr>filt_env := (filt_env e)\<lparr>release := max 0.001 (py_float v)\<rparr>\<rparr>
      else if name = ''arp_mode'' then
        e\<lparr>arp_mode := ARP_MODES ! nat (py_int v mod int (length ARP_MODES))\<rparr>
      else if name = ''arp_octaves'' then e\<lparr>arp_octaves := max 1 (py_int v)\<rparr>
      else e)"

section \<open>Engines (audio/engines/__init__.py)\<close>

datatype engine = FM FMEngine | Vector VectorEngine | Subtractive SubtractiveEngine

definition ENGINE_CLASSES :: "(string \<times> engine) list" where
  "ENGINE_CLASSES =
     [(''fm'', FM FMEngine_init), (''vector'', Vector VectorEngine_init),
      (''subtractive'', Subtractive SubtractiveEngine_init)]"

text \<open>\<open>ENGINE_CLASSES.get(name, FMEngine)()\<close>: a fresh engine of the named class.\<close>

definition make_engine :: "string \<Rightarrow> engine" where
  "make_engine name =
     (case map_of ENGINE_CLASSES name of Some e \<Rightarrow> e | None \<Rightarrow> FM FMEngine_init)"

fun engine_is_active :: "engine \<Rightarrow> bool" where
  "engine_is_active (FM e) = fm_is_active e"
| "engine_is_active (Vector e) = vector_is_active e"
| "engine_is_active (Subtractive e) = subtractive_is_active e"

fun engine_note_on :: "(int list \<Rightarrow> int list) \<Rightarrow> engine \<Rightarrow> int \<Rightarrow> int \<Rightarrow> engine" where
  "engine_note_on shuffle (FM e) note vel = FM (fm_note_on e note vel)"
| "engine_note_on shuffle (Vector e) note vel = Vector (vector_note_on e note vel)"
| "engine_note_on shuffle (Subtractive e) note vel =
     Subtractive (subtractive_note_on shuffle e note vel)"

fun engine_note_off :: "engine \<Rightarrow> engine" where
  "engine_note_off (FM e) = FM (fm_note_off e)"
| "engine_note_off (Vector e) = Vector (vector_note_off e)"
| "engine_note_off (Subtractive e) = Subtractive (subtractive_note_off e)"

fun engine_set_param :: "engine \<Rightarrow> string \<Rightarrow> pyval \<Rightarrow> py_error + engine" where
  "engine_set_param (FM e) name v =
     (case fm_set_param e name v of Inl err \<Rightarrow> Inl err | Inr e1 \<Rightarrow> Inr (FM e1))"
| "engine_set_param (Vector e) name v = Inr (Vector (vector_set_param e name v))"
| "engine_set_param (Subtractive e) name v = Inr (Subtractive (subtractive_set_param e name v))"

section \<open>Voice (audio/voice.py)\<close>

record Voice =
  engine :: engine
  current_note :: "int option"
  active :: bool
  velocity :: int
  engine_name :: string

definition Voice_init :: "string \<Rightarrow> Voice" where
  "Voice_init name =
     \<lparr>engine = make_engine name, current_note = None, active = False, velocity = 100,
      engine_name = name\<rparr>"

definition change_engine :: "Voice \<Rightarrow> string \<Rightarrow> Voice" where
  "change_engine v name =
     (if name \<noteq> engine_name v
      then v\<lparr>engine_name := name, engine := make_engine name,
             current_note := None, active := False\<rparr>
      else v)"

definition voice_note_on :: "(int list \<Rightarrow> int list) \<Rightarrow> Voice \<Rightarrow> int \<Rightarrow> int \<Rightarrow> Voice" where
  "voice_note_on shuffle v note vel =
     v\<lparr>current_note := Some note, velocity := vel, active := True,
       engine := engine_note_on shuffle (engine v) note vel\<rparr>"

definition voice_note_off :: "Voice \<Rightarrow> Voice" where
  "voice_note_off v = v\<lparr>engine := engine_note_off (engine v)\<rparr>"

definition is_free :: "Voice \<Rightarrow> bool" where
  "is_free v = (\<not> active v \<and> \<not> engine_is_active (engine v))"

section \<open>Voice pool (audio/voice_pool.py)\<close>

definition N_VOICES :: int where
  "N_VOICES = 4"

record VoicePool =
  voices :: "Voice list"
  next_voice :: int

definition VoicePool_init :: VoicePool where
  "VoicePool_init =
     \<lparr>voices = map Voice_init [''fm'', ''vector'', ''subtractive'', ''fm''], next_voice = 0\<rparr>"

definition set_track_engine :: "VoicePool \<Rightarrow> int \<Rightarrow> string \<Rightarrow> py_error + VoicePool" where
  "set_track_engine p track_idx name =
     (case py_index (length (voices p)) track_idx of
        None \<Rightarrow> Inl IndexError
      | Some j \<Rightarrow> Inr (p\<lparr>voices := (voices p)[j := change_engine (voices p ! j) name]\<rparr>))"

definition set_track_param :: "VoicePool \<Rightarrow> int \<Rightarrow> string \<Rightarrow> pyval \<Rightarrow> py_error + VoicePool" where
  "set_track_param p track_idx param v =
     (case py_index (length (voices p)) track_idx of
        None \<Rightarrow> Inl IndexError
      | Some j \<Rightarrow>
          (case engine_set_param (engine (voices p ! j)) param v of
             Inl err \<Rightarrow> Inl err
           | Inr e \<Rightarrow> Inr (p\<lparr>voices := (voices p)[j := (voices p ! j)\<lparr>engine := e\<rparr>]\<rparr>)))"

text \<open>The first loop of \<open>_allocate\<close>: the position of the first free voice, if any.\<close>

fun first_free :: "Voice list \<Rightarrow> nat option" where
  "first_free [] = None"
| "first_free (v # vs) =
     (if is_free v then Some 0 else map_option Suc (first_free vs))"

text \<open>\<open>_allocate\<close>: the position of the voice returned, and the pool with its cursor.\<close>

definition allocate :: "VoicePool \<Rightarrow> py_error + (nat \<times> VoicePool)" where
  "allocate p =
     (case first_free (voices p) of
        Some j \<Rightarrow> Inr (j, p)
      | None \<Rightarrow>
          (case py_index (length (voices p)) (next_voice p mod N_VOICES) of
             None \<Rightarrow> Inl IndexError
           | Some j \<Rightarrow> Inr (j, p\<lparr>next_voice := (next_voice p + 1) mod N_VOICES\<rparr>)))"

text \<open>
  The voice a note-on goes to: \<open>voices[track_idx % N_VOICES]\<close> for an explicit target,
  the allocated voice otherwise.
\<close>

definition select_voice :: "VoicePool \<Rightarrow> int option \<Rightarrow> py_error + (nat \<times> VoicePool)" where
  "select_voice p track_idx =
     (case track_idx of
        Some t \<Rightarrow>
          (case py_index (length (voices p)) (t mod N_VOICES) of
             None \<Rightarrow> Inl IndexError
           | Some j \<Rightarrow> Inr (j, p))
      | None \<Rightarrow> allocate p)"

definition note_on :: "(int list \<Rightarrow> int list) \<Rightarrow> VoicePool \<Rightarrow> int option \<Rightarrow> int \<Rightarrow> int
    \<Rightarrow> py_error + VoicePool" where
  "note_on shuffle p track_idx note vel =
     (case select_voice p track_idx of
        Inl err \<Rightarrow> Inl err
      | Inr (j, p1) \<Rightarrow>
          Inr (p1\<lparr>voices := (voices p1)[j := voice_note_on shuffle (voices p1 ! j) note vel]\<rparr>))"

definition note_off :: "VoicePool \<Rightarrow> int option \<Rightarrow> int \<Rightarrow> py_error + VoicePool" where
  "note_off p track_idx note =
     (case track_idx of
        Some t \<Rightarrow>
          (case py_index (length (voices p)) (t mod N_VOICES) of
             None \<Rightarrow> Inl IndexError
           | Some j \<Rightarrow>
               (if current_note (voices p ! j) = Some note
                then Inr (p\<lparr>voices := (voices p)[j := voice_note_off (voices p ! j)]\<rparr>)
                else Inr p))
      | None \<Rightarrow>
          Inr (p\<lparr>voices := map (\<lambda>v. if current_note v = Some note then voice_note_off v else v)
                              (voices p)\<rparr>))"

text \<open>
  A run of auto-allocated note-ons (target \<open>None\<close>), each given as note and velocity:
  the positions of the voices they went to, in order, and the pool after them.
\<close>

fun auto_note_ons :: "(int list \<Rightarrow> int list) \<Rightarrow> VoicePool \<Rightarrow> (int \<times> int) list
    \<Rightarrow> py_error + (nat list \<times> VoicePool)" where
  "auto_note_ons shuffle p [] = Inr ([], p)"
| "auto_note_ons shuffle p ((note, vel) # evs) =
     (case select_voice p None of
        Inl err \<Rightarrow> Inl err
      | Inr (j, p0) \<Rightarrow>
          (case note_on shuffle p None note vel of
             Inl err \<Rightarrow> Inl err
           | Inr p1 \<Rightarrow>
               (case auto_note_ons shuffle p1 evs of
                  Inl err \<Rightarrow> Inl err
                | Inr (js, p2) \<Rightarrow> Inr (j # js, p2))))"

text \<open>The envelopes an engine owns, in the order the engine holds them.\<close>

fun envelopes :: "engine \<Rightarrow> ADSREnvelope list" where
  "envelopes (FM e) = map op_env (ops e)"
| "envelopes (Vector e) = [vec_env e]"
| "envelopes (Subtractive e) = [amp_env e, filt_env e]"

section \<open>Parameter keys of the engines\<close>

text \<open>The keys of \<open>get_params\<close> of the Vector and the Subtractive engine.\<close>

definition vector_keys :: "string list" where
  "vector_keys = [''osc_a'', ''osc_b'', ''osc_c'', ''osc_d'', ''xy_x'', ''xy_y'', ''lfo_rate'',
     ''lfo_depth'', ''filter_cutoff'', ''filter_res'', ''filter_mode'', ''attack'', ''decay'',
     ''sustain'', ''release'']"

definition subtractive_keys :: "string list" where
  "subtractive_keys = [''osc1_wave'', ''osc2_wave'', ''osc_mix'', ''detune'', ''octave'',
     ''filter_cutoff'', ''filter_res'', ''filter_mode'', ''filter_env_amt'', ''amp_attack'',
     ''amp_decay'', ''amp_sustain'', ''amp_release'', ''filt_attack'', ''filt_decay'',
     ''filt_sustain'', ''filt_release'', ''arp_mode'', ''arp_octaves'']"

section \<open>Additive synthesis as the specification describes it\<close>




section \<open>Rounding to the nearest double\<close>

lemma round_half_even_error: "\<bar>of_int (round_half_even z) - z\<bar> \<le> 1 / 2"
proof -
  have "of_int \<lfloor>z\<rfloor> \<le> z" "z < of_int \<lfloor>z\<rfloor> + 1"
    by linarith+
  then show ?thesis
    by (auto simp: round_half_even_def Let_def)
qed

lemma round_half_even_ge: "of_int N \<le> z \<Longrightarrow> N \<le> round_half_even z"
proof -
  assume "of_int N \<le> z"
  then have "N \<le> \<lfloor>z\<rfloor>" by (simp add: le_floor_iff)
  then show ?thesis
    by (auto simp: round_half_even_def Let_def)
qed

lemma round_half_even_le: "z \<le> of_int N \<Longrightarrow> round_half_even z \<le> N"
proof -
  assume le: "z \<le> of_int N"
  show ?thesis
  proof (cases "z = of_int N")
    case True
    then show ?thesis by (simp add: round_half_even_def)
  next
    case False
    with le have "z < of_int N" by simp
    then have "\<lfloor>z\<rfloor> < N" by (simp add: floor_less_iff)
    then show ?thesis
      by (auto simp: round_half_even_def Let_def)
  qed
qed

lemma round_half_even_of_int [simp]: "round_half_even (of_int n) = n"
  by (simp add: round_half_even_def)

lemma pow2_pos [simp]: "0 < pow2 e"
  by (simp add: pow2_def)

lemma pow2_nonneg [simp]: "0 \<le> pow2 e"
  by (simp add: pow2_def)

lemma pow2_not_le_0 [simp]: "\<not> pow2 e \<le> 0"
  using pow2_pos [of e] by linarith

lemma pow2_neq_0 [simp]: "pow2 e \<noteq> 0"
  using pow2_pos [of e] by linarith

lemma pow2_le_iff [simp]: "pow2 a \<le> pow2 b \<longleftrightarrow> a \<le> b"
  by (simp add: pow2_def)

lemma pow2_less_iff [simp]: "pow2 a < pow2 b \<longleftrightarrow> a < b"
  by (simp add: pow2_def)

lemma pow2_add: "pow2 (a + b) = pow2 a * pow2 b"
  by (simp add: pow2_def powr_add)

lemma pow2_diff: "pow2 (a - b) = pow2 a / pow2 b"
  by (simp add: pow2_def powr_diff)

lemma pow2_0 [simp]: "pow2 0 = 1"
  by (simp add: pow2_def)

lemma pow2_1: "pow2 1 = 2"
  by (simp add: pow2_def)

lemma pow2_half: "pow2 e / 2 = pow2 (e - 1)"
  by (simp add: pow2_diff pow2_1)

lemma pow2_double: "2 * pow2 e = pow2 (e + 1)"
  by (simp add: pow2_add pow2_1)

lemma pow2_nat: "pow2 (int n) = 2 ^ n"
  by (simp add: pow2_def powr_realpow)

lemma pow2_neg_nat: "pow2 (- int n) = 1 / 2 ^ n"
  by (simp add: pow2_def powr_minus_divide powr_realpow)

lemma log2_floor_bounds:
  assumes "x \<noteq> 0"
  shows "pow2 \<lfloor>log 2 \<bar>x\<bar>\<rfloor> \<le> \<bar>x\<bar>"
    and "\<bar>x\<bar> < pow2 (\<lfloor>log 2 \<bar>x\<bar>\<rfloor> + 1)"
proof -
  have "0 < \<bar>x\<bar>" using assms by simp
  then have "2 powr of_int \<lfloor>log 2 \<bar>x\<bar>\<rfloor> \<le> \<bar>x\<bar> \<and> \<bar>x\<bar> < 2 powr of_int (\<lfloor>log 2 \<bar>x\<bar>\<rfloor> + 1)"
    using floor_log_eq_powr_iff [of "\<bar>x\<bar>" 2 "\<lfloor>log 2 \<bar>x\<bar>\<rfloor>"] by simp
  then show "pow2 \<lfloor>log 2 \<bar>x\<bar>\<rfloor> \<le> \<bar>x\<bar>"
    and "\<bar>x\<bar> < pow2 (\<lfloor>log 2 \<bar>x\<bar>\<rfloor> + 1)"
    by (simp_all add: pow2_def)
qed

lemma log2_floor_eq:
  assumes "pow2 k \<le> \<bar>x\<bar>" and "\<bar>x\<bar> < pow2 (k + 1)"
  shows "\<lfloor>log 2 \<bar>x\<bar>\<rfloor> = k"
proof -
  have "0 < \<bar>x\<bar>" using assms(1) pow2_pos [of k] by linarith
  then show ?thesis
    using assms floor_log_eq_powr_iff [of "\<bar>x\<bar>" 2 k] by (simp add: pow2_def)
qed

lemma rnd_value:
  assumes "x \<noteq> 0" and "rnd x = Fin y"
  shows "y = of_int (round_half_even (x / pow2 (ulp_exponent x))) * pow2 (ulp_exponent x)"
  using assms by (auto simp: rnd_def Let_def split: if_splits)

lemma rnd_finite:
  assumes "x \<noteq> 0" and "\<bar>x\<bar> \<le> pow2 1023"
  shows "\<exists>y. rnd x = Fin y \<and> \<bar>y - x\<bar> \<le> pow2 (ulp_exponent x - 1)
           \<and> y = of_int (round_half_even (x / pow2 (ulp_exponent x))) * pow2 (ulp_exponent x)"
proof -
  let ?k = "\<lfloor>log 2 \<bar>x\<bar>\<rfloor>"
  let ?e = "ulp_exponent x"
  let ?P = "pow2 ?e"
  let ?m = "round_half_even (x / ?P)"
  let ?y = "of_int ?m * ?P"
  have P: "0 < ?P" by simp
  have "pow2 ?k \<le> \<bar>x\<bar>" using assms(1) by (rule log2_floor_bounds)
  with assms(2) have "pow2 ?k \<le> pow2 1023" by linarith
  then have k: "?k \<le> 1023" by simp
  then have e: "?e \<le> 971" unfolding ulp_exponent_def by linarith
  have "\<bar>of_int ?m - x / ?P\<bar> \<le> 1 / 2" by (rule round_half_even_error)
  then have "\<bar>of_int ?m - x / ?P\<bar> * ?P \<le> 1 / 2 * ?P"
    using P by (intro mult_right_mono) simp_all
  moreover have "\<bar>of_int ?m - x / ?P\<bar> * ?P = \<bar>?y - x\<bar>"
  proof -
    have "\<bar>of_int ?m - x / ?P\<bar> * ?P = \<bar>(of_int ?m - x / ?P) * ?P\<bar>"
      using P by (simp add: abs_mult)
    also have "(of_int ?m - x / ?P) * ?P = ?y - x"
      using P by (simp add: algebra_simps)
    finally show ?thesis .
  qed
  ultimately have "\<bar>?y - x\<bar> \<le> ?P / 2" by simp
  then have err: "\<bar>?y - x\<bar> \<le> pow2 (?e - 1)" by (simp only: pow2_half)
  have "pow2 (?e - 1) \<le> pow2 970" using e by simp
  with err have "\<bar>?y - x\<bar> \<le> pow2 970" by linarith
  then have "\<bar>?y\<bar> \<le> pow2 1023 + pow2 970"
    using assms(2) by linarith
  also have "pow2 970 < pow2 1023" by simp
  then have "pow2 1023 + pow2 970 < 2 * pow2 1023" by simp
  also have "2 * pow2 1023 = pow2 1024" by (simp add: pow2_double)
  finally have "\<not> pow2 1024 \<le> \<bar>?y\<bar>" by simp
  then have "rnd x = Fin ?y"
    using assms(1) by (simp add: rnd_def Let_def)
  with err show ?thesis by blast
qed

text \<open>In the normal range the rounding error is at most \<open>2 ^ -53\<close> of the value.\<close>

lemma rnd_relative:
  assumes "pow2 (- 1022) \<le> \<bar>x\<bar>" and "\<bar>x\<bar> \<le> pow2 1023"
  shows "\<exists>y. rnd x = Fin y \<and> \<bar>y - x\<bar> \<le> pow2 (- 53) * \<bar>x\<bar>"
proof -
  let ?k = "\<lfloor>log 2 \<bar>x\<bar>\<rfloor>"
  have nz: "x \<noteq> 0" using assms(1) pow2_pos [of "- 1022"] by auto
  have lo: "pow2 ?k \<le> \<bar>x\<bar>" and hi: "\<bar>x\<bar> < pow2 (?k + 1)"
    using nz by (rule log2_floor_bounds)+
  from assms(1) hi have "pow2 (- 1022) < pow2 (?k + 1)" by linarith
  then have "- 1022 \<le> ?k" by simp
  then have e: "ulp_exponent x = ?k - 52" unfolding ulp_exponent_def by linarith
  from rnd_finite [OF nz assms(2)] obtain y where y: "rnd x = Fin y"
    and err: "\<bar>y - x\<bar> \<le> pow2 (ulp_exponent x - 1)" by blast
  have "pow2 (ulp_exponent x - 1) = pow2 (- 53 + ?k)" by (simp add: e)
  also have "\<dots> = pow2 (- 53) * pow2 ?k" by (rule pow2_add)
  also have "\<dots> \<le> pow2 (- 53) * \<bar>x\<bar>"
    using lo by (intro mult_left_mono) simp_all
  finally have "pow2 (ulp_exponent x - 1) \<le> pow2 (- 53) * \<bar>x\<bar>" .
  with err have "\<bar>y - x\<bar> \<le> pow2 (- 53) * \<bar>x\<bar>" by linarith
  with y show ?thesis by blast
qed

lemma rnd_eval:
  assumes "x \<noteq> 0" and "n \<le> 1074"
    and "2 ^ 52 \<le> \<bar>x\<bar> * 2 ^ n" and "\<bar>x\<bar> * 2 ^ n < 2 ^ 53"
  shows "rnd x = Fin (of_int (round_half_even (x * 2 ^ n)) / 2 ^ n)"
proof -
  let ?m = "round_half_even (x * 2 ^ n)"
  have p52: "pow2 (52 - int n) = 2 ^ 52 / 2 ^ n"
    using pow2_diff [of 52 "int n"] pow2_nat [of 52] pow2_nat [of n] by simp
  have p53: "pow2 (52 - int n + 1) = 2 ^ 53 / 2 ^ n"
    using pow2_diff [of 53 "int n"] pow2_nat [of 53] pow2_nat [of n] by simp
  have lo: "pow2 (52 - int n) \<le> \<bar>x\<bar>"
    unfolding p52 using assms(3) by (simp add: field_simps)
  have hi: "\<bar>x\<bar> < pow2 (52 - int n + 1)"
    unfolding p53 using assms(4) by (simp add: field_simps)
  have "\<lfloor>log 2 \<bar>x\<bar>\<rfloor> = 52 - int n"
    using lo hi by (rule log2_floor_eq)
  then have e: "ulp_exponent x = - int n"
    unfolding ulp_exponent_def using assms(2) by linarith
  have P: "pow2 (- int n) = 1 / 2 ^ n" by (rule pow2_neg_nat)
  have z: "x / pow2 (- int n) = x * 2 ^ n" by (simp add: P)
  have "x * 2 ^ n \<le> \<bar>x\<bar> * 2 ^ n"
    by (rule mult_right_mono) simp_all
  with assms(4) have "x * 2 ^ n \<le> 2 ^ 53" by linarith
  then have "x * 2 ^ n \<le> of_int (2 ^ 53)" by simp
  then have up: "?m \<le> 2 ^ 53" by (rule round_half_even_le)
  have "(- \<bar>x\<bar>) * 2 ^ n \<le> x * 2 ^ n"
    by (rule mult_right_mono) (simp_all add: abs_le_D2 minus_le_iff)
  then have "- (\<bar>x\<bar> * 2 ^ n) \<le> x * 2 ^ n" by (simp only: mult_minus_left)
  with assms(4) have "- (2 ^ 53) \<le> x * 2 ^ n" by linarith
  then have "of_int (- (2 ^ 53)) \<le> x * 2 ^ n" by simp
  then have dn: "- (2 ^ 53) \<le> ?m" by (rule round_half_even_ge)
  from up dn have "\<bar>?m\<bar> \<le> 2 ^ 53" by linarith
  then have "\<bar>real_of_int ?m\<bar> \<le> 2 ^ 53"
    by (metis of_int_abs of_int_le_iff of_int_numeral of_int_power)
  then have "\<bar>real_of_int ?m\<bar> \<le> pow2 53" by (simp add: pow2_nat [of 53, simplified])
  moreover have "\<bar>real_of_int ?m * pow2 (- int n)\<bar> \<le> \<bar>real_of_int ?m\<bar>"
  proof -
    have "pow2 (- int n) \<le> pow2 0" by (simp del: pow2_0)
    then have "pow2 (- int n) \<le> 1" by simp
    then have "\<bar>real_of_int ?m\<bar> * pow2 (- int n) \<le> \<bar>real_of_int ?m\<bar> * 1"
      by (intro mult_left_mono) simp_all
    then show ?thesis by (simp add: abs_mult)
  qed
  moreover have "pow2 53 < pow2 1024" by simp
  ultimately have "\<not> pow2 1024 \<le> \<bar>real_of_int ?m * pow2 (- int n)\<bar>" by linarith
  then have "rnd x = Fin (real_of_int ?m * pow2 (- int n))"
    using assms(1) by (simp add: rnd_def Let_def e z)
  then show ?thesis by (simp add: P)
qed

lemma rnd_nonneg:
  assumes "0 \<le> x"
  shows "rnd x = PInf \<or> (\<exists>p. rnd x = Fin p \<and> 0 \<le> p)"
proof (cases "x = 0")
  case True
  then show ?thesis by (simp add: rnd_def)
next
  case False
  with assms have pos: "0 < x" by simp
  let ?e = "ulp_exponent x"
  have "of_int 0 \<le> x / pow2 ?e" using pos by simp
  then have "0 \<le> round_half_even (x / pow2 ?e)" by (rule round_half_even_ge)
  then have "0 \<le> real_of_int (round_half_even (x / pow2 ?e)) * pow2 ?e" by simp
  then show ?thesis
    using pos by (simp add: rnd_def Let_def)
qed

lemma rnd_finite_nonneg:
  assumes "0 \<le> x" and "x \<le> pow2 1023"
  shows "\<exists>p. rnd x = Fin p \<and> 0 \<le> p"
proof (cases "x = 0")
  case True
  then show ?thesis by (simp add: rnd_def)
next
  case False
  with assms have "\<bar>x\<bar> \<le> pow2 1023" by simp
  from rnd_finite [OF False this] obtain y where "rnd x = Fin y" by blast
  with rnd_nonneg [OF assms(1)] show ?thesis by auto
qed

lemma rnd_eval_to:
  assumes "x \<noteq> 0" and "n \<le> 1074"
    and "2 ^ 52 \<le> \<bar>x\<bar> * 2 ^ n" and "\<bar>x\<bar> * 2 ^ n < 2 ^ 53"
    and "round_half_even (x * 2 ^ n) = m" and "y = of_int m / 2 ^ n"
  shows "rnd x = Fin y"
  using rnd_eval [OF assms(1-4)] assms(5,6) by simp

lemma rnd_overflow:
  assumes "pow2 1024 \<le> x"
  shows "rnd x = PInf"
proof -
  let ?k = "\<lfloor>log 2 \<bar>x\<bar>\<rfloor>"
  let ?e = "ulp_exponent x"
  have xpos: "0 < x" using assms pow2_pos [of 1024] by linarith
  then have nz: "x \<noteq> 0" and ax: "\<bar>x\<bar> = x" by simp_all
  have lo: "pow2 ?k \<le> x" using log2_floor_bounds(1) [OF nz] by (simp only: ax)
  have "x < pow2 (?k + 1)" using log2_floor_bounds(2) [OF nz] by (simp only: ax)
  with assms have "pow2 1024 < pow2 (?k + 1)" by linarith
  then have k: "1024 \<le> ?k" by simp
  then have e: "?e = ?k - 52" unfolding ulp_exponent_def by linarith
  have "pow2 52 = pow2 ?k / pow2 ?e" by (simp add: e pow2_diff [symmetric])
  also have "\<dots> \<le> x / pow2 ?e" using lo by (rule divide_right_mono) simp
  finally have "pow2 (int 52) \<le> x / pow2 ?e" by simp
  then have "of_int (2 ^ 52) \<le> x / pow2 ?e" by (simp only: pow2_nat) simp
  then have m: "2 ^ 52 \<le> round_half_even (x / pow2 ?e)" by (rule round_half_even_ge)
  have "pow2 1024 \<le> pow2 ?k" using k by simp
  also have "pow2 ?k = pow2 (52 + ?e)" by (simp add: e)
  also have "\<dots> = pow2 52 * pow2 ?e" by (rule pow2_add)
  also have "pow2 52 = of_int (2 ^ 52)" using pow2_nat [of 52] by simp
  also have "of_int (2 ^ 52) * pow2 ?e \<le> of_int (round_half_even (x / pow2 ?e)) * pow2 ?e"
    using m by (intro mult_right_mono) simp_all
  finally have big: "pow2 1024 \<le> of_int (round_half_even (x / pow2 ?e)) * pow2 ?e" .
  have "0 \<le> of_int (round_half_even (x / pow2 ?e)) * pow2 ?e"
    using big pow2_nonneg [of 1024] by linarith
  with big have "pow2 1024 \<le> \<bar>of_int (round_half_even (x / pow2 ?e)) * pow2 ?e\<bar>"
    by linarith
  then show ?thesis
    using xpos nz by (simp add: rnd_def Let_def)
qed

lemma rnd_11025_4096: "rnd (11025 / 4096) = Fin (11025 / 4096)"
  by (rule rnd_eval_to [where n = 51 and m = 6061057848115200])
    (simp_all add: round_half_even_def)

lemma rnd_product_16384: "rnd (1 / 16384 * 44100) = Fin (11025 / 4096)"
proof -
  have "(1 / 16384 :: real) * 44100 = 11025 / 4096" by simp
  then show ?thesis by (simp only: rnd_11025_4096)
qed


lemma rnd_33_100: "rnd 0.33 = Fin (5944751508129055 / 18014398509481984)"
  by (rule rnd_eval_to [where n = 54 and m = 5944751508129055])
    (simp_all add: round_half_even_def)

text \<open>In the normal range a rounded positive value is positive and within a factor 2.\<close>

lemma rnd_range:
  assumes "pow2 lo \<le> x" and "x \<le> pow2 hi" and "- 1022 \<le> lo" and "hi \<le> 1023"
  shows "\<exists>y. rnd x = Fin y \<and> \<bar>y - x\<bar> \<le> pow2 (- 53) * x
           \<and> pow2 (lo - 1) \<le> y \<and> y \<le> pow2 (hi + 1)"
proof -
  have xpos: "0 < x" using assms(1) pow2_pos [of lo] by linarith
  have ax: "\<bar>x\<bar> = x" using xpos by simp
  have "pow2 (- 1022) \<le> pow2 lo" using assms(3) by simp
  with assms(1) have "pow2 (- 1022) \<le> x" by linarith
  then have n1: "pow2 (- 1022) \<le> \<bar>x\<bar>" by (simp only: ax)
  have "pow2 hi \<le> pow2 1023" using assms(4) by simp
  with assms(2) have "x \<le> pow2 1023" by linarith
  then have n2: "\<bar>x\<bar> \<le> pow2 1023" by (simp only: ax)
  from rnd_relative [OF n1 n2] obtain y where y: "rnd x = Fin y"
    and err: "\<bar>y - x\<bar> \<le> pow2 (- 53) * \<bar>x\<bar>" by blast
  have u: "pow2 (- 53) \<le> 1 / 2"
  proof -
    have "pow2 (- 53) \<le> pow2 (- 1)" by simp
    also have "pow2 (- 1) = 1 / 2" using pow2_neg_nat [of 1] by simp
    finally show ?thesis .
  qed
  have "pow2 (- 53) * x \<le> 1 / 2 * x"
    using u xpos by (intro mult_right_mono) simp_all
  with err have e2: "\<bar>y - x\<bar> \<le> x / 2" using ax by linarith
  have "pow2 (lo - 1) = pow2 lo / 2" by (simp only: pow2_half)
  also have "\<dots> \<le> x / 2" using assms(1) by simp
  also have "\<dots> \<le> y" using e2 by linarith
  finally have l: "pow2 (lo - 1) \<le> y" .
  have "y \<le> 2 * x" using e2 xpos by linarith
  also have "\<dots> \<le> 2 * pow2 hi" using assms(2) by simp
  also have "\<dots> = pow2 (hi + 1)" by (rule pow2_double)
  finally have h: "y \<le> pow2 (hi + 1)" .
  from err have "\<bar>y - x\<bar> \<le> pow2 (- 53) * x" by (simp only: ax)
  with y l h show ?thesis by blast
qed

text \<open>A value in \<open>[0, 1/2]\<close> rounds into \<open>[0, 1/2]\<close>, also in the subnormal range.\<close>

lemma rnd_small:
  assumes "0 \<le> x" and "x \<le> 1 / 2"
  shows "\<exists>y. rnd x = Fin y \<and> 0 \<le> y \<and> y \<le> 1 / 2"
proof (cases "x = 0")
  case True
  then show ?thesis by (simp add: rnd_def)
next
  case False
  with assms have xpos: "0 < x" by simp
  let ?e = "ulp_exponent x"
  let ?k = "\<lfloor>log 2 \<bar>x\<bar>\<rfloor>"
  have half: "pow2 (- 1) = 1 / 2" using pow2_neg_nat [of 1] by simp
  have ax: "\<bar>x\<bar> = x" using xpos by simp
  have "x \<le> pow2 (- 1)" using assms(2) by (simp only: half)
  moreover have "pow2 (- 1) \<le> pow2 1023" by simp
  ultimately have "x \<le> pow2 1023" by linarith
  then have fin: "\<bar>x\<bar> \<le> pow2 1023" by (simp only: ax)
  from rnd_finite [OF False fin] obtain y where y: "rnd x = Fin y"
    and val: "y = of_int (round_half_even (x / pow2 ?e)) * pow2 ?e" by blast
  have "pow2 ?k \<le> \<bar>x\<bar>" using False by (rule log2_floor_bounds)
  then have "pow2 ?k \<le> x" by (simp only: ax)
  with assms(2) have "pow2 ?k \<le> 1 / 2" by linarith
  then have "pow2 ?k \<le> pow2 (- 1)" by (simp only: half)
  then have "?k \<le> - 1" by (simp only: pow2_le_iff)
  then have e: "?e \<le> - 53" unfolding ulp_exponent_def by linarith
  define N :: int where "N = 2 ^ nat (- 1 - ?e)"
  have "pow2 (- 1 - ?e) = pow2 (int (nat (- 1 - ?e)))" using e by simp
  also have "\<dots> = 2 ^ nat (- 1 - ?e)" by (rule pow2_nat)
  finally have N: "pow2 (- 1 - ?e) = of_int N" by (simp add: N_def)
  have "x / pow2 ?e \<le> (1 / 2) / pow2 ?e"
    using assms(2) by (rule divide_right_mono) simp
  also have "(1 / 2) / pow2 ?e = pow2 (- 1 - ?e)"
    by (simp add: pow2_diff half)
  finally have "x / pow2 ?e \<le> of_int N" by (simp only: N)
  then have "round_half_even (x / pow2 ?e) \<le> N" by (rule round_half_even_le)
  then have "of_int (round_half_even (x / pow2 ?e)) * pow2 ?e \<le> of_int N * pow2 ?e"
    by (intro mult_right_mono) simp_all
  also have "of_int N * pow2 ?e = pow2 (- 1 - ?e + ?e)"
    by (simp only: pow2_add N)
  also have "\<dots> = 1 / 2" by (simp add: half)
  finally have up: "y \<le> 1 / 2" by (simp only: val)
  have "of_int 0 \<le> x / pow2 ?e" using xpos by simp
  then have "0 \<le> round_half_even (x / pow2 ?e)" by (rule round_half_even_ge)
  then have "0 \<le> y" by (simp add: val)
  with y up show ?thesis by blast
qed

text \<open>Two roundings in a row, \<open>t\<close> of \<open>A\<close> and \<open>d\<close> of \<open>B * t\<close>, stay within \<open>3u\<close> of \<open>B * A\<close>.\<close>

lemma two_roundings:
  fixes A B t d u :: real
  assumes "0 \<le> B" and "0 \<le> A" and "0 \<le> u" and "u \<le> 1"
    and "\<bar>t - A\<bar> \<le> u * A" and "\<bar>d - B * t\<bar> \<le> u * (B * t)"
  shows "\<bar>d - B * A\<bar> \<le> 3 * u * (B * A)"
proof -
  have uA: "u * A \<le> A" using assms(2,4) mult_right_mono [of u 1 A] by simp
  have t1: "t \<le> A + u * A" and t0: "A - u * A \<le> t" using assms(5) by linarith+
  have "t \<le> 2 * A" using t1 uA by linarith
  then have "B * t \<le> B * (2 * A)" using assms(1) by (rule mult_left_mono)
  then have "u * (B * t) \<le> u * (B * (2 * A))" using assms(3) by (rule mult_left_mono)
  then have e1: "\<bar>d - B * t\<bar> \<le> 2 * (u * (B * A))" using assms(6) by (simp add: algebra_simps)
  have "\<bar>B * t - B * A\<bar> = B * \<bar>t - A\<bar>"
    using assms(1) by (simp add: abs_mult right_diff_distrib [symmetric])
  also have "\<dots> \<le> B * (u * A)" using assms(5,1) by (rule mult_left_mono)
  finally have e2: "\<bar>B * t - B * A\<bar> \<le> u * (B * A)" by (simp add: algebra_simps)
  have "\<bar>d - B * A\<bar> \<le> \<bar>d - B * t\<bar> + \<bar>B * t - B * A\<bar>" by linarith
  with e1 e2 show ?thesis by (simp add: algebra_simps)
qed

section \<open>Time-to-sample conversion\<close>

text \<open>
  C3 (as stated, refuted): the conversion is claimed to be
  \<open>max(1, round(seconds * 44100))\<close>. The source truncates with \<open>int(...)\<close>: at
  \<open>seconds = 1/16384\<close> the product is 2.69..., exact as a double, the code returns 2
  and rounding gives 3.
\<close>

theorem time_to_samples_round_counterexample:
  "time_to_samples (Fin (1 / 16384)) = Inr 2
   \<and> max 1 (round ((1 / 16384 :: real) * 44100)) = 3"
proof -
  have "time_to_samples (Fin (1 / 16384)) = Inr 2"
    by (simp add: time_to_samples_def SAMPLE_RATE_def rnd_11025_4096 py_trunc_def)
  moreover have "max 1 (round ((1 / 16384 :: real) * 44100)) = 3"
    by (simp add: round_def)
  ultimately show ?thesis by simp
qed

text \<open>
  The double nearest to 0.3 lies below 0.3, and its exact product with 44100 lies
  below 13230; the double product rounds up to 13230, and so does the code.
\<close>

lemma time_to_samples_double_0_3:
  "time_to_samples (Fin (5404319552844595 / 18014398509481984)) = Inr 13230"
proof -
  let ?x = "5404319552844595 / 18014398509481984 * 44100 :: real"
  have "rnd ?x = Fin 13230"
    by (rule rnd_eval_to [where n = 39 and m = 7273269417738240])
      (simp_all add: round_half_even_def)
  then show ?thesis
    by (simp add: time_to_samples_def SAMPLE_RATE_def py_trunc_def)
qed

text \<open>
  The double nearest to 0.35 lies below 0.35; its product with 44100 rounds to the
  double just below 15435, and the code returns 15434.
\<close>

lemma time_to_samples_double_0_35:
  "time_to_samples (Fin (3152519739159347 / 9007199254740992)) = Inr 15434"
proof -
  let ?x = "3152519739159347 / 9007199254740992 * 44100 :: real"
  have "rnd ?x = Fin (8485480987361279 / 549755813888)"
    by (rule rnd_eval_to [where n = 39 and m = 8485480987361279])
      (simp_all add: round_half_even_def)
  then show ?thesis
    by (simp add: time_to_samples_def SAMPLE_RATE_def py_trunc_def)
qed

text \<open>
  C3 (amended): for every non-negative finite number of seconds the conversion returns
  \<open>max(1, floor(p))\<close>, where \<open>p\<close> is the double product \<open>seconds * 44100\<close>:
  the product is truncated by \<open>int\<close>, not rounded. A result is at least one sample,
  also for zero time; there is a result whenever the exact product is at most
  \<open>2 ^ 1023\<close>, and \<open>int\<close> raises OverflowError when the product overflows.
\<close>

theorem time_to_samples_trunc:
  assumes "0 \<le> s"
  shows "((rnd (s * 44100) = PInf \<and> time_to_samples (Fin s) = Inl OverflowError)
          \<or> (\<exists>p. rnd (s * 44100) = Fin p \<and> 0 \<le> p
                  \<and> time_to_samples (Fin s) = Inr (max 1 \<lfloor>p\<rfloor>)))
       \<and> (\<forall>n. time_to_samples (Fin s) = Inr n \<longrightarrow> 1 \<le> n)
       \<and> (s * 44100 \<le> pow2 1023 \<longrightarrow> (\<exists>n. time_to_samples (Fin s) = Inr n))
       \<and> (pow2 1024 \<le> s * 44100 \<longrightarrow> time_to_samples (Fin s) = Inl OverflowError)"
proof -
  have x: "0 \<le> s * 44100" using assms by simp
  have a: "(rnd (s * 44100) = PInf \<and> time_to_samples (Fin s) = Inl OverflowError)
          \<or> (\<exists>p. rnd (s * 44100) = Fin p \<and> 0 \<le> p
                  \<and> time_to_samples (Fin s) = Inr (max 1 \<lfloor>p\<rfloor>))"
    using rnd_nonneg [OF x]
    by (auto simp: time_to_samples_def SAMPLE_RATE_def py_trunc_def)
  have b: "\<forall>n. time_to_samples (Fin s) = Inr n \<longrightarrow> 1 \<le> n"
    by (auto simp: time_to_samples_def split: sum.splits)
  have c: "s * 44100 \<le> pow2 1023 \<longrightarrow> (\<exists>n. time_to_samples (Fin s) = Inr n)"
  proof
    assume "s * 44100 \<le> pow2 1023"
    from rnd_finite_nonneg [OF x this] obtain p where "rnd (s * 44100) = Fin p" by blast
    then show "\<exists>n. time_to_samples (Fin s) = Inr n"
      by (simp add: time_to_samples_def SAMPLE_RATE_def)
  qed
  have d: "pow2 1024 \<le> s * 44100 \<longrightarrow> time_to_samples (Fin s) = Inl OverflowError"
  proof
    assume "pow2 1024 \<le> s * 44100"
    then have "rnd (s * 44100) = PInf" by (rule rnd_overflow)
    then show "time_to_samples (Fin s) = Inl OverflowError"
      by (simp add: time_to_samples_def SAMPLE_RATE_def)
  qed
  from a b c d show ?thesis by (intro conjI)
qed

theorem time_to_samples_trunc_witness:
  "(0::real) \<le> 1 / 16384 \<and> (1 / 16384 :: real) * 44100 \<le> pow2 1023
   \<and> time_to_samples (Fin (1 / 16384)) = Inr 2 \<and> (1::int) \<le> 2
   \<and> (0::real) \<le> 2 ^ 1020 \<and> pow2 1024 \<le> 2 ^ 1020 * 44100
   \<and> time_to_samples (Fin (2 ^ 1020)) = Inl OverflowError"
proof -
  have h1: "(0::real) \<le> 1 / 16384" by simp
  have h2: "(1 / 16384 :: real) * 44100 \<le> pow2 1023"
  proof -
    have "pow2 2 = 4" using pow2_nat [of 2] by simp
    moreover have "pow2 2 \<le> pow2 1023" by simp
    ultimately show ?thesis by simp
  qed
  note T = time_to_samples_trunc [OF h1]
  have "rnd (1 / 16384 * 44100) \<noteq> PInf" by (simp only: rnd_product_16384) simp
  with T [THEN conjunct1] obtain p where p: "rnd (1 / 16384 * 44100) = Fin p"
    and r: "time_to_samples (Fin (1 / 16384)) = Inr (max 1 \<lfloor>p\<rfloor>)" by blast
  from p have "p = 11025 / 4096" by (simp only: rnd_product_16384 pyfloat.inject)
  with r have r2: "time_to_samples (Fin (1 / 16384)) = Inr 2" by simp
  have h3: "(0::real) \<le> 2 ^ 1020" by simp
  have h4: "pow2 1024 \<le> 2 ^ 1020 * 44100"
  proof -
    have "pow2 (int 1024) = 2 ^ 1024" by (rule pow2_nat)
    then have "pow2 1024 = 2 ^ 1020 * 16" by simp
    also have "\<dots> \<le> 2 ^ 1020 * 44100" by (intro mult_left_mono) simp_all
    finally show ?thesis .
  qed
  have "pow2 1024 \<le> 2 ^ 1020 * 44100 \<longrightarrow> time_to_samples (Fin (2 ^ 1020)) = Inl OverflowError"
    by (rule time_to_samples_trunc [OF h3, THEN conjunct2, THEN conjunct2, THEN conjunct2])
  from this h4 have r3: "time_to_samples (Fin (2 ^ 1020)) = Inl OverflowError"
    by (rule mp)
  have h5: "(1::int) \<le> 2" by simp
  from h1 h2 r2 h5 h3 h4 r3 show ?thesis by (intro conjI)
qed

lemma sample_count_ge_1: "1 \<le> sample_count s"
  by (auto simp: sample_count_def time_to_samples_def split: sum.splits)

section \<open>Filter: rendering leaves the cutoff alone\<close>

lemma svf_render_block_frame:
  "snd (svf_render_block flt b) =
     flt\<lparr>low := low (snd (svf_render_block flt b)), band := band (snd (svf_render_block flt b))\<rparr>"
  by (simp add: svf_render_block_def Let_def split: prod.splits)

lemma svf_render_blocks_frame:
  "svf_render_blocks flt bs =
     flt\<lparr>low := low (svf_render_blocks flt bs), band := band (svf_render_blocks flt bs)\<rparr>"
proof (induction bs arbitrary: flt)
  case Nil
  show ?case by simp
next
  case (Cons b bs)
  let ?f1 = "snd (svf_render_block flt b)"
  have "svf_render_blocks ?f1 bs =
      ?f1\<lparr>low := low (svf_render_blocks ?f1 bs), band := band (svf_render_blocks ?f1 bs)\<rparr>"
    by (rule Cons.IH)
  also have "\<dots> = flt\<lparr>low := low (svf_render_blocks ?f1 bs), band := band (svf_render_blocks ?f1 bs)\<rparr>"
    by (subst svf_render_block_frame) simp
  finally show ?case by simp
qed

text \<open>
  C9: rendering never writes the stored cutoff. After any number of successive render
  calls the filter differs from the one before them in the registers \<open>low\<close> and
  \<open>band\<close> only, so the stored cutoff and the clamped cutoff
  \<open>min(max(cutoff, 20), 0.49 * 44100)\<close> that the coefficient is computed from are
  the same at every call, whatever the cutoff is.
\<close>

theorem svf_cutoff_stable:
  "svf_render_blocks flt bs =
     flt\<lparr>low := low (svf_render_blocks flt bs), band := band (svf_render_blocks flt bs)\<rparr>
   \<and> cutoff (svf_render_blocks flt bs) = cutoff flt
   \<and> clamped_cutoff (svf_render_blocks flt bs) = clamped_cutoff flt
   \<and> clamped_cutoff flt = min (max (cutoff flt) 20) (0.49 * 44100)"
proof -
  have fr: "svf_render_blocks flt bs =
     flt\<lparr>low := low (svf_render_blocks flt bs), band := band (svf_render_blocks flt bs)\<rparr>"
    by (rule svf_render_blocks_frame)
  have c: "cutoff (svf_render_blocks flt bs) = cutoff flt"
    by (subst fr) simp
  show ?thesis using fr c by (simp add: clamped_cutoff_def SAMPLE_RATE_def)
qed

lemma clamped_cutoff_above_nyquist:
  "clamped_cutoff (SVFilter_init 30000 r m) = 21609"
  by (simp add: clamped_cutoff_def SVFilter_init_def SAMPLE_RATE_def)

section \<open>Clock: step durations under swing\<close>

lemma tempo_90_quotient:
  "ddiv (Fin 60) (Fin 90) = Inr (Fin (6004799503160661 / 9007199254740992))"
proof -
  have "rnd ((60) / 90) = Fin (6004799503160661 / 9007199254740992)"
    by (rule rnd_eval_to [where n = 53 and m = 6004799503160661]) (simp_all add: round_half_even_def)
  then show ?thesis by simp
qed

lemma tempo_90_base:
  "ddiv (Fin (6004799503160661 / 9007199254740992)) (Fin 4) = Inr (Fin (6004799503160661 / 36028797018963968))"
proof -
  have "rnd ((6004799503160661 / 9007199254740992) / 4) = Fin (6004799503160661 / 36028797018963968)"
    by (rule rnd_eval_to [where n = 55 and m = 6004799503160661]) (simp_all add: round_half_even_def)
  then show ?thesis by simp
qed

lemma swing_07_amount:
  "dmul (Fin (3152519739159347 / 4503599627370496)) (Fin (5944751508129055 / 18014398509481984)) = Fin (2080663027845169 / 9007199254740992)"
proof -
  have "rnd ((3152519739159347 / 4503599627370496) * (5944751508129055 / 18014398509481984)) = Fin (2080663027845169 / 9007199254740992)"
    by (rule rnd_eval_to [where n = 55 and m = 8322652111380676]) (simp_all add: round_half_even_def)
  then show ?thesis by (simp add: dsub_def)
qed

lemma swing_07_factor_even:
  "dadd (Fin 1) (Fin (2080663027845169 / 9007199254740992)) = Fin (692991392661635 / 562949953421312)"
proof -
  have "rnd ((1) + (2080663027845169 / 9007199254740992)) = Fin (692991392661635 / 562949953421312)"
    by (rule rnd_eval_to [where n = 52 and m = 5543931141293080]) (simp_all add: round_half_even_def)
  then show ?thesis by (simp add: dsub_def)
qed

lemma swing_07_factor_odd:
  "dsub (Fin 1) (Fin (2080663027845169 / 9007199254740992)) = Fin (6926536226895823 / 9007199254740992)"
proof -
  have "rnd ((1) - (2080663027845169 / 9007199254740992)) = Fin (6926536226895823 / 9007199254740992)"
    by (rule rnd_eval_to [where n = 53 and m = 6926536226895823]) (simp_all add: round_half_even_def)
  then show ?thesis by (simp add: dsub_def)
qed

lemma swing_07_product_even:
  "dmul (Fin (6004799503160661 / 36028797018963968)) (Fin (692991392661635 / 562949953421312)) = Fin (7391908188390773 / 36028797018963968)"
proof -
  have "rnd ((6004799503160661 / 36028797018963968) * (692991392661635 / 562949953421312)) = Fin (7391908188390773 / 36028797018963968)"
    by (rule rnd_eval_to [where n = 55 and m = 7391908188390773]) (simp_all add: round_half_even_def)
  then show ?thesis by (simp add: dsub_def)
qed

lemma swing_07_product_odd:
  "dmul (Fin (6004799503160661 / 36028797018963968)) (Fin (6926536226895823 / 9007199254740992)) = Fin (1154422704482637 / 9007199254740992)"
proof -
  have "rnd ((6004799503160661 / 36028797018963968) * (6926536226895823 / 9007199254740992)) = Fin (1154422704482637 / 9007199254740992)"
    by (rule rnd_eval_to [where n = 55 and m = 4617690817930548]) (simp_all add: round_half_even_def)
  then show ?thesis by (simp add: dsub_def)
qed

lemma swing_07_double_sum:
  "dadd (Fin (7391908188390773 / 36028797018963968)) (Fin (1154422704482637 / 9007199254740992)) = Fin (1501199875790165 / 4503599627370496)"
proof -
  have "rnd ((7391908188390773 / 36028797018963968) + (1154422704482637 / 9007199254740992)) = Fin (1501199875790165 / 4503599627370496)"
    by (rule rnd_eval_to [where n = 54 and m = 6004799503160660]) (simp_all add: round_half_even_def)
  then show ?thesis by (simp add: dsub_def)
qed

lemma tempo_90_twice_base:
  "dmul (Fin 2) (Fin (6004799503160661 / 36028797018963968)) = Fin (6004799503160661 / 18014398509481984)"
proof -
  have "rnd ((2) * (6004799503160661 / 36028797018963968)) = Fin (6004799503160661 / 18014398509481984)"
    by (rule rnd_eval_to [where n = 54 and m = 6004799503160661]) (simp_all add: round_half_even_def)
  then show ?thesis by (simp add: dsub_def)
qed


lemma swing_07_base:
  "base_duration \<lparr>bpm = Fin 90, swing = Fin (3152519739159347 / 4503599627370496), n_steps = 16, step = 0\<rparr> = Inr (Fin (6004799503160661 / 36028797018963968))"
  by (simp only: base_duration_def Clock.select_convs tempo_90_quotient tempo_90_base sum.case)

lemma swing_07_nonzero: "Fin (3152519739159347 / 4503599627370496) \<noteq> Fin 0"
  by simp

lemma swing_07_even:
  "step_duration \<lparr>bpm = Fin 90, swing = Fin (3152519739159347 / 4503599627370496), n_steps = 16, step = 0\<rparr> 0 = Inr (Fin (7391908188390773 / 36028797018963968))"
proof -
  have m: "(0::int) mod 2 = 0" by simp
  show ?thesis
    by (simp only: step_duration_def swing_07_base sum.case Clock.select_convs
        swing_07_nonzero if_False Let_def rnd_33_100 swing_07_amount swing_07_factor_even swing_07_product_even m if_True refl)
qed

lemma swing_07_odd:
  "step_duration \<lparr>bpm = Fin 90, swing = Fin (3152519739159347 / 4503599627370496), n_steps = 16, step = 0\<rparr> 1 = Inr (Fin (1154422704482637 / 9007199254740992))"
proof -
  have m: "((1::int) mod 2 = 0) = False" by simp
  show ?thesis
    by (simp only: step_duration_def swing_07_base sum.case Clock.select_convs
        swing_07_nonzero if_False Let_def rnd_33_100 swing_07_amount swing_07_factor_odd swing_07_product_odd m)
qed

text \<open>
  C7 (as stated, refuted): an even and the following odd step are claimed to sum to
  exactly twice the base duration. At 90 BPM and swing 0.7 (the double nearest to
  0.7) the two durations the code computes sum to \<open>2 ^ -55\<close> less than twice the
  base, as real numbers and as the double sum.
\<close>

theorem step_pair_sum_counterexample:
  "base_duration \<lparr>bpm = Fin 90, swing = Fin (3152519739159347 / 4503599627370496), n_steps = 16, step = 0\<rparr> = Inr (Fin (6004799503160661 / 36028797018963968))
   \<and> step_duration \<lparr>bpm = Fin 90, swing = Fin (3152519739159347 / 4503599627370496), n_steps = 16, step = 0\<rparr> 0 = Inr (Fin (7391908188390773 / 36028797018963968))
   \<and> step_duration \<lparr>bpm = Fin 90, swing = Fin (3152519739159347 / 4503599627370496), n_steps = 16, step = 0\<rparr> 1 = Inr (Fin (1154422704482637 / 9007199254740992))
   \<and> (7391908188390773 / 36028797018963968 :: real) + 1154422704482637 / 9007199254740992 \<noteq> 2 * (6004799503160661 / 36028797018963968)
   \<and> dadd (Fin (7391908188390773 / 36028797018963968)) (Fin (1154422704482637 / 9007199254740992)) \<noteq> dmul (Fin 2) (Fin (6004799503160661 / 36028797018963968))"
proof -
  have ne: "(7391908188390773 / 36028797018963968 :: real) + 1154422704482637 / 9007199254740992 \<noteq> 2 * (6004799503160661 / 36028797018963968)"
    by simp
  have ne2: "dadd (Fin (7391908188390773 / 36028797018963968)) (Fin (1154422704482637 / 9007199254740992)) \<noteq> dmul (Fin 2) (Fin (6004799503160661 / 36028797018963968))"
    by (simp only: swing_07_double_sum tempo_90_twice_base) simp
  from swing_07_base swing_07_even swing_07_odd ne ne2 show ?thesis
    by (intro conjI)
qed

lemma pow2_mult_le:
  assumes "pow2 a \<le> x" and "pow2 b \<le> y"
  shows "pow2 (a + b) \<le> x * y"
proof -
  have "0 \<le> x" using assms(1) pow2_nonneg [of a] by linarith
  then have "pow2 a * pow2 b \<le> x * y"
    using assms by (intro mult_mono) simp_all
  then show ?thesis by (simp only: pow2_add)
qed

lemma mult_le_pow2:
  assumes "0 \<le> x" and "0 \<le> y" and "x \<le> pow2 a" and "y \<le> pow2 b"
  shows "x * y \<le> pow2 (a + b)"
proof -
  have "x * y \<le> pow2 a * pow2 b"
    using assms by (intro mult_mono) simp_all
  then show ?thesis by (simp only: pow2_add)
qed

lemma base_duration_normal:
  assumes "bpm c = Fin b" and "pow2 (- 1000) \<le> b" and "b \<le> pow2 1000"
  shows "\<exists>B. base_duration c = Inr (Fin B) \<and> pow2 (- 1004) \<le> B \<and> B \<le> pow2 1006"
proof -
  have bpos: "0 < b" using assms(2) pow2_pos [of "- 1000"] by linarith
  have inv_lo: "1 / pow2 1000 = pow2 (- 1000)"
    using pow2_diff [of 0 1000] by simp
  have "pow2 (- 1000) \<le> 1 / b"
  proof -
    have "1 / pow2 1000 \<le> 1 / b"
      using assms(3) bpos by (intro divide_left_mono) simp_all
    then show ?thesis by (simp only: inv_lo)
  qed
  moreover have "1 / b \<le> 60 / b" using bpos by (simp add: divide_right_mono)
  ultimately have lo: "pow2 (- 1000) \<le> 60 / b" by linarith
  have "60 / b \<le> 64 / b" using bpos by (simp add: divide_right_mono)
  moreover have "64 / b \<le> 64 / pow2 (- 1000)"
    using assms(2) bpos by (intro divide_left_mono) simp_all
  moreover have "64 / pow2 (- 1000) = pow2 1006"
  proof -
    have "pow2 6 = 64" using pow2_nat [of 6] by simp
    then have "64 / pow2 (- 1000) = pow2 6 / pow2 (- 1000)" by simp
    also have "\<dots> = pow2 (6 - (- 1000))" by (simp only: pow2_diff)
    finally show ?thesis by simp
  qed
  ultimately have hi: "60 / b \<le> pow2 1006" by linarith
  from rnd_range [OF lo hi] obtain q where q: "rnd (60 / b) = Fin q"
    and ql: "pow2 (- 1000 - 1) \<le> q" and qh: "q \<le> pow2 (1006 + 1)" by auto
  have four: "pow2 2 = 4" using pow2_nat [of 2] by simp
  have "pow2 (- 1001 - 2) = pow2 (- 1001) / pow2 2" by (simp only: pow2_diff)
  also have "\<dots> \<le> q / 4" using ql by (simp add: four)
  finally have l4: "pow2 (- 1003) \<le> q / 4" by simp
  have "q / 4 \<le> pow2 1007 / pow2 2" using qh by (simp add: four)
  also have "\<dots> = pow2 (1007 - 2)" by (simp only: pow2_diff)
  finally have h4: "q / 4 \<le> pow2 1005" by simp
  from rnd_range [OF l4 h4] obtain B where B: "rnd (q / 4) = Fin B"
    and Bl: "pow2 (- 1003 - 1) \<le> B" and Bh: "B \<le> pow2 (1005 + 1)" by auto
  have "base_duration c = Inr (Fin B)"
    using bpos by (simp add: base_duration_def assms(1) q B)
  with Bl Bh show ?thesis by simp
qed

lemma swing_amount_small:
  assumes "0 \<le> s" and "s \<le> 1"
  shows "\<exists>sa. dmul (Fin s) (rnd 0.33) = Fin sa \<and> 0 \<le> sa \<and> sa \<le> 1 / 2"
proof -
  let ?C = "5944751508129055 / 18014398509481984 :: real"
  have "s * ?C \<le> 1 * ?C" using assms(2) by (intro mult_right_mono) simp_all
  then have up: "s * ?C \<le> 1 / 2" by simp
  have lo: "0 \<le> s * ?C" using assms(1) by simp
  have "dmul (Fin s) (rnd 0.33) = rnd (s * ?C)"
    by (simp only: rnd_33_100 dmul.simps)
  with rnd_small [OF lo up] show ?thesis
    by simp
qed

lemma rounded_factor:
  assumes "pow2 (- 1) \<le> A" and "A \<le> pow2 1"
    and "pow2 (- 1004) \<le> B" and "B \<le> pow2 1006"
  shows "\<exists>t d. rnd A = Fin t \<and> dmul (Fin B) (Fin t) = Fin d
           \<and> \<bar>d - B * A\<bar> \<le> 3 * pow2 (- 53) * (B * A)"
proof -
  have Bpos: "0 < B" using assms(3) pow2_pos [of "- 1004"] by linarith
  have Apos: "0 < A" using assms(1) pow2_pos [of "- 1"] by linarith
  from rnd_range [OF assms(1,2)] obtain t where t: "rnd A = Fin t"
    and te: "\<bar>t - A\<bar> \<le> pow2 (- 53) * A"
    and tl: "pow2 (- 1 - 1) \<le> t" and th: "t \<le> pow2 (1 + 1)" by auto
  have tpos: "0 < t" using tl pow2_pos [of "- 1 - 1"] by linarith
  have l: "pow2 (- 1004 + (- 1 - 1)) \<le> B * t"
    using assms(3) tl by (rule pow2_mult_le)
  have h: "B * t \<le> pow2 (1006 + (1 + 1))"
    using Bpos tpos assms(4) th by (intro mult_le_pow2) simp_all
  from rnd_range [OF l h] obtain d where d: "rnd (B * t) = Fin d"
    and de: "\<bar>d - B * t\<bar> \<le> pow2 (- 53) * (B * t)" by auto
  have u1: "pow2 (- 53) \<le> 1"
  proof -
    have "pow2 (- 53) \<le> pow2 0" by (simp del: pow2_0)
    then show ?thesis by simp
  qed
  have "\<bar>d - B * A\<bar> \<le> 3 * pow2 (- 53) * (B * A)"
    using Bpos Apos u1 te de by (intro two_roundings [where t = t]) simp_all
  with t d show ?thesis by auto
qed

text \<open>
  C7 (amended): for every tempo between \<open>2 ^ -1000\<close> and \<open>2 ^ 1000\<close> and every
  swing in \<open>[0, 1]\<close>, with \<open>base\<close> the double \<open>60 / bpm / 4\<close>, an even step
  lasts \<open>base * (1 + swing * 0.33)\<close> and an odd step \<open>base * (1 - swing * 0.33)\<close>,
  each operation rounded to the nearest double (\<open>base\<close> itself at swing 0). An even
  step and the odd step after it sum to twice the base up to rounding: the difference
  is at most \<open>2 ^ -51\<close> of the sum.
\<close>

theorem step_duration_swing:
  assumes "bpm c = Fin b" and "swing c = Fin s"
    and "pow2 (- 1000) \<le> b" and "b \<le> pow2 1000" and "0 \<le> s" and "s \<le> 1"
  shows "\<exists>B d0 d1. base_duration c = Inr (Fin B) \<and> 0 < B
      \<and> step_duration c (2 * k) = Inr (Fin d0)
      \<and> step_duration c (2 * k + 1) = Inr (Fin d1)
      \<and> Fin d0 = (if s = 0 then Fin B
                   else dmul (Fin B) (dadd (Fin 1) (dmul (Fin s) (rnd 0.33))))
      \<and> Fin d1 = (if s = 0 then Fin B
                   else dmul (Fin B) (dsub (Fin 1) (dmul (Fin s) (rnd 0.33))))
      \<and> \<bar>d0 + d1 - 2 * B\<bar> \<le> pow2 (- 51) * (2 * B)"
proof -
  from base_duration_normal [OF assms(1,3,4)] obtain B
    where base: "base_duration c = Inr (Fin B)"
      and Bl: "pow2 (- 1004) \<le> B" and Bh: "B \<le> pow2 1006" by blast
  have Bpos: "0 < B" using Bl pow2_pos [of "- 1004"] by linarith
  have ev: "(2 * k) mod 2 = 0" and od: "(2 * k + 1) mod 2 \<noteq> 0" by presburger+
  show ?thesis
  proof (cases "s = 0")
    case True
    have "step_duration c (2 * k) = Inr (Fin B)" and "step_duration c (2 * k + 1) = Inr (Fin B)"
      by (simp_all add: step_duration_def base assms(2) True)
    moreover have "\<bar>B + B - 2 * B\<bar> \<le> pow2 (- 51) * (2 * B)"
      using Bpos by simp
    ultimately show ?thesis
      using base Bpos True by (intro exI [of _ B] conjI) simp_all
  next
    case False
    from swing_amount_small [OF assms(5,6)] obtain sa
      where sa: "dmul (Fin s) (rnd 0.33) = Fin sa" and s0: "0 \<le> sa" and s1: "sa \<le> 1 / 2"
      by blast
    have half: "pow2 (- 1) = 1 / 2" using pow2_neg_nat [of 1] by simp
    have two: "pow2 1 = 2" by (rule pow2_1)
    have a0l: "pow2 (- 1) \<le> 1 + sa" using s0 half by linarith
    have a0h: "1 + sa \<le> pow2 1" using s1 two by linarith
    have a1l: "pow2 (- 1) \<le> 1 - sa" using s1 half by linarith
    have a1h: "1 - sa \<le> pow2 1" using s0 two by linarith
    from rounded_factor [OF a0l a0h Bl Bh] obtain t0 d0
      where t0: "rnd (1 + sa) = Fin t0" and d0: "dmul (Fin B) (Fin t0) = Fin d0"
        and e0: "\<bar>d0 - B * (1 + sa)\<bar> \<le> 3 * pow2 (- 53) * (B * (1 + sa))" by blast
    from rounded_factor [OF a1l a1h Bl Bh] obtain t1 d1
      where t1: "rnd (1 - sa) = Fin t1" and d1: "dmul (Fin B) (Fin t1) = Fin d1"
        and e1: "\<bar>d1 - B * (1 - sa)\<bar> \<le> 3 * pow2 (- 53) * (B * (1 - sa))" by blast
    have x0: "dmul (Fin B) (dadd (Fin 1) (dmul (Fin s) (rnd 0.33))) = Fin d0"
      by (simp only: sa dadd.simps t0 d0)
    have "dsub (Fin 1) (Fin sa) = rnd (1 - sa)"
      by (simp add: dsub_def)
    then have x1: "dmul (Fin B) (dsub (Fin 1) (dmul (Fin s) (rnd 0.33))) = Fin d1"
      by (simp only: sa t1 d1)
    have ns: "Fin s \<noteq> Fin 0" using False by simp
    have r0: "step_duration c (2 * k) = Inr (Fin d0)"
      by (simp only: step_duration_def base sum.case assms(2) ns if_False Let_def ev if_True
          refl x0)
    have r1: "step_duration c (2 * k + 1) = Inr (Fin d1)"
      using od by (simp only: step_duration_def base sum.case assms(2) ns if_False Let_def x1)
    have split: "d0 + d1 - 2 * B = (d0 - B * (1 + sa)) + (d1 - B * (1 - sa))"
      by (simp add: algebra_simps)
    have "\<bar>d0 + d1 - 2 * B\<bar> \<le> \<bar>d0 - B * (1 + sa)\<bar> + \<bar>d1 - B * (1 - sa)\<bar>"
      unfolding split by (rule abs_triangle_ineq)
    also have "\<dots> \<le> 3 * pow2 (- 53) * (B * (1 + sa)) + 3 * pow2 (- 53) * (B * (1 - sa))"
      using e0 e1 by linarith
    also have "\<dots> = 3 * pow2 (- 53) * (2 * B)"
      by (simp add: algebra_simps)
    also have "\<dots> \<le> 4 * pow2 (- 53) * (2 * B)"
      using Bpos by (intro mult_right_mono) simp_all
    also have "4 * pow2 (- 53) = pow2 (- 51)"
    proof -
      have "pow2 (- 51) = pow2 (2 + (- 53))" by simp
      also have "\<dots> = pow2 2 * pow2 (- 53)" by (rule pow2_add)
      also have "pow2 2 = 4" using pow2_nat [of 2] by simp
      finally show ?thesis by simp
    qed
    finally have bound: "\<bar>d0 + d1 - 2 * B\<bar> \<le> pow2 (- 51) * (2 * B)" .
    show ?thesis
      using base Bpos r0 r1 x0 x1 bound False
      by (intro exI [of _ B] exI [of _ d0] exI [of _ d1] conjI) simp_all
  qed
qed

lemma tempo_120_quotient:
  "ddiv (Fin (60)) (Fin (120)) = Inr (Fin (1 / 2))"
proof -
  have "rnd ((60) / (120)) = Fin (1 / 2)"
    by (rule rnd_eval_to [where n = 53 and m = 4503599627370496]) (simp_all add: round_half_even_def)
  then show ?thesis by (simp add: dsub_def)
qed

lemma tempo_120_base:
  "ddiv (Fin (1 / 2)) (Fin (4)) = Inr (Fin (1 / 8))"
proof -
  have "rnd ((1 / 2) / (4)) = Fin (1 / 8)"
    by (rule rnd_eval_to [where n = 55 and m = 4503599627370496]) (simp_all add: round_half_even_def)
  then show ?thesis by (simp add: dsub_def)
qed

lemma swing_05_amount:
  "dmul (Fin (1 / 2)) (Fin (5944751508129055 / 18014398509481984)) = Fin (5944751508129055 / 36028797018963968)"
proof -
  have "rnd ((1 / 2) * (5944751508129055 / 18014398509481984)) = Fin (5944751508129055 / 36028797018963968)"
    by (rule rnd_eval_to [where n = 55 and m = 5944751508129055]) (simp_all add: round_half_even_def)
  then show ?thesis by (simp add: dsub_def)
qed

lemma swing_05_factor_even:
  "dadd (Fin (1)) (Fin (5944751508129055 / 36028797018963968)) = Fin (1311673391471657 / 1125899906842624)"
proof -
  have "rnd ((1) + (5944751508129055 / 36028797018963968)) = Fin (1311673391471657 / 1125899906842624)"
    by (rule rnd_eval_to [where n = 52 and m = 5246693565886628]) (simp_all add: round_half_even_def)
  then show ?thesis by (simp add: dsub_def)
qed

lemma swing_05_factor_odd:
  "dsub (Fin (1)) (Fin (5944751508129055 / 36028797018963968)) = Fin (940126422213591 / 1125899906842624)"
proof -
  have "rnd ((1) - (5944751508129055 / 36028797018963968)) = Fin (940126422213591 / 1125899906842624)"
    by (rule rnd_eval_to [where n = 53 and m = 7521011377708728]) (simp_all add: round_half_even_def)
  then show ?thesis by (simp add: dsub_def)
qed

lemma swing_05_product_even:
  "dmul (Fin (1 / 8)) (Fin (1311673391471657 / 1125899906842624)) = Fin (1311673391471657 / 9007199254740992)"
proof -
  have "rnd ((1 / 8) * (1311673391471657 / 1125899906842624)) = Fin (1311673391471657 / 9007199254740992)"
    by (rule rnd_eval_to [where n = 55 and m = 5246693565886628]) (simp_all add: round_half_even_def)
  then show ?thesis by (simp add: dsub_def)
qed

lemma swing_05_product_odd:
  "dmul (Fin (1 / 8)) (Fin (940126422213591 / 1125899906842624)) = Fin (940126422213591 / 9007199254740992)"
proof -
  have "rnd ((1 / 8) * (940126422213591 / 1125899906842624)) = Fin (940126422213591 / 9007199254740992)"
    by (rule rnd_eval_to [where n = 56 and m = 7521011377708728]) (simp_all add: round_half_even_def)
  then show ?thesis by (simp add: dsub_def)
qed

lemma swing_05_base:
  "base_duration \<lparr>bpm = Fin 120, swing = Fin (1 / 2), n_steps = 16, step = 0\<rparr> = Inr (Fin (1 / 8))"
  by (simp only: base_duration_def Clock.select_convs tempo_120_quotient tempo_120_base sum.case)

lemma swing_05_nonzero: "Fin (1 / 2) \<noteq> Fin 0"
  by simp

lemma swing_05_even:
  "step_duration \<lparr>bpm = Fin 120, swing = Fin (1 / 2), n_steps = 16, step = 0\<rparr> 0 = Inr (Fin (1311673391471657 / 9007199254740992))"
proof -
  have m: "(0::int) mod 2 = 0" by simp
  show ?thesis
    by (simp only: step_duration_def swing_05_base sum.case Clock.select_convs
        swing_05_nonzero if_False Let_def rnd_33_100 swing_05_amount swing_05_factor_even swing_05_product_even m if_True refl)
qed

lemma swing_05_odd:
  "step_duration \<lparr>bpm = Fin 120, swing = Fin (1 / 2), n_steps = 16, step = 0\<rparr> 1 = Inr (Fin (940126422213591 / 9007199254740992))"
proof -
  have m: "((1::int) mod 2 = 0) = False" by simp
  show ?thesis
    by (simp only: step_duration_def swing_05_base sum.case Clock.select_convs
        swing_05_nonzero if_False Let_def rnd_33_100 swing_05_amount swing_05_factor_odd swing_05_product_odd m)
qed

lemma tempo_120_in_range: "pow2 (- 1000) \<le> 120" "120 \<le> pow2 1000"
proof -
  have "pow2 (- 1000) \<le> pow2 0" by (simp del: pow2_0)
  then show "pow2 (- 1000) \<le> 120" by simp
  have "pow2 7 = 128" using pow2_nat [of 7] by simp
  moreover have "pow2 7 \<le> pow2 1000" by simp
  ultimately show "120 \<le> pow2 1000" by linarith
qed

theorem step_duration_swing_witness:
  "bpm \<lparr>bpm = Fin 120, swing = Fin (1 / 2), n_steps = 16, step = 0\<rparr> = Fin 120
   \<and> swing \<lparr>bpm = Fin 120, swing = Fin (1 / 2), n_steps = 16, step = 0\<rparr> = Fin (1 / 2)
   \<and> pow2 (- 1000) \<le> 120 \<and> 120 \<le> pow2 1000 \<and> (0::real) \<le> 1 / 2 \<and> (1 / 2 :: real) \<le> 1
   \<and> (\<exists>B d0 d1. base_duration \<lparr>bpm = Fin 120, swing = Fin (1 / 2), n_steps = 16, step = 0\<rparr> = Inr (Fin B) \<and> 0 < B
         \<and> step_duration \<lparr>bpm = Fin 120, swing = Fin (1 / 2), n_steps = 16, step = 0\<rparr> 0 = Inr (Fin d0)
         \<and> step_duration \<lparr>bpm = Fin 120, swing = Fin (1 / 2), n_steps = 16, step = 0\<rparr> 1 = Inr (Fin d1)
         \<and> \<bar>d0 + d1 - 2 * B\<bar> \<le> pow2 (- 51) * (2 * B))
   \<and> step_duration \<lparr>bpm = Fin 120, swing = Fin (1 / 2), n_steps = 16, step = 0\<rparr> 0 = Inr (Fin (1311673391471657 / 9007199254740992))
   \<and> step_duration \<lparr>bpm = Fin 120, swing = Fin (1 / 2), n_steps = 16, step = 0\<rparr> 1 = Inr (Fin (940126422213591 / 9007199254740992))
   \<and> (1311673391471657 / 9007199254740992 :: real) + 940126422213591 / 9007199254740992 = 1 / 4"
proof -
  let ?c = "\<lparr>bpm = Fin 120, swing = Fin (1 / 2), n_steps = 16, step = 0\<rparr>"
  have h1: "bpm ?c = Fin 120" and h2: "swing ?c = Fin (1 / 2)" by simp_all
  have h5: "(0::real) \<le> 1 / 2" and h6: "(1 / 2 :: real) \<le> 1" by simp_all
  from step_duration_swing [OF h1 h2 tempo_120_in_range h5 h6, of 0]
  obtain B d0 d1 where a: "base_duration ?c = Inr (Fin B)" and b: "0 < B"
    and c: "step_duration ?c (2 * 0) = Inr (Fin d0)"
    and d: "step_duration ?c (2 * 0 + 1) = Inr (Fin d1)"
    and e: "\<bar>d0 + d1 - 2 * B\<bar> \<le> pow2 (- 51) * (2 * B)"
    by blast
  from c have c': "step_duration ?c 0 = Inr (Fin d0)" by simp
  from d have d': "step_duration ?c 1 = Inr (Fin d1)" by simp
  from a b c' d' e have ex: "\<exists>B d0 d1. base_duration ?c = Inr (Fin B) \<and> 0 < B
         \<and> step_duration ?c 0 = Inr (Fin d0) \<and> step_duration ?c 1 = Inr (Fin d1)
         \<and> \<bar>d0 + d1 - 2 * B\<bar> \<le> pow2 (- 51) * (2 * B)"
    by blast
  have s: "(1311673391471657 / 9007199254740992 :: real) + 940126422213591 / 9007199254740992 = 1 / 4"
    by simp
  from h1 h2 tempo_120_in_range h5 h6 ex swing_05_even swing_05_odd s show ?thesis
    by (intro conjI)
qed

section \<open>Envelope: the level stays in the unit interval\<close>

lemma rate_nonneg: "0 \<le> x \<Longrightarrow> 0 \<le> x / real_of_int (sample_count t)"
  using sample_count_ge_1 [of t] by simp

lemma rate_pos: "0 < 1 / real_of_int (sample_count t)"
  using sample_count_ge_1 [of t] by simp

lemma tick_inv: "env_inv e \<Longrightarrow> env_inv (snd (tick e))"
proof (cases "state e")
  case IDLE
  assume "env_inv e"
  with IDLE show ?thesis by simp
next
  case ATTACK
  assume inv: "env_inv e"
  have "0 < 1 / real_of_int (sample_count (attack e))" by (rule rate_pos)
  with inv ATTACK show ?thesis by (simp add: env_inv_def Let_def)
next
  case DECAY
  assume inv: "env_inv e"
  then have "0 \<le> (1 - sustain e) / real_of_int (sample_count (decay e))"
    by (intro rate_nonneg) (simp add: env_inv_def)
  with inv DECAY show ?thesis by (simp add: env_inv_def Let_def)
next
  case SUSTAIN
  assume "env_inv e"
  with SUSTAIN show ?thesis by (simp add: env_inv_def)
next
  case RELEASE
  assume inv: "env_inv e"
  then have "0 \<le> release_level e / real_of_int (sample_count (release e))"
    by (intro rate_nonneg) (simp add: env_inv_def)
  with inv RELEASE show ?thesis by (simp add: env_inv_def Let_def)
qed

lemma tick_value: "env_inv e \<Longrightarrow> fst (tick e) = (if state e = IDLE then 0 else level (snd (tick e)))"
  by (cases "state e") (simp_all add: Let_def)

lemma tick_value_range: "env_inv e \<Longrightarrow> 0 \<le> fst (tick e) \<and> fst (tick e) \<le> 1"
  using tick_inv [of e] tick_value [of e] by (simp add: env_inv_def)

lemma env_apply_inv: "env_inv e \<Longrightarrow> op_in_range x \<Longrightarrow> env_inv (env_apply e x)"
proof (cases x)
  case OpTick
  assume "env_inv e"
  with OpTick show ?thesis using tick_inv [of e] by simp
qed (simp_all add: env_inv_def env_note_on_def env_note_off_def)

lemma env_run_inv:
  "env_inv e \<Longrightarrow> list_all op_in_range xs \<Longrightarrow> env_inv (foldl env_apply e xs)"
  by (induction xs arbitrary: e) (simp_all add: env_apply_inv)

lemma env_render_block_range:
  "env_inv e \<Longrightarrow> list_all (\<lambda>v. 0 \<le> v \<and> v \<le> 1) (fst (env_render_block e n))"
proof (induction n arbitrary: e)
  case 0
  show ?case by simp
next
  case (Suc n)
  have "env_inv (snd (tick e))" using Suc.prems by (rule tick_inv)
  then have "list_all (\<lambda>v. 0 \<le> v \<and> v \<le> 1) (fst (env_render_block (snd (tick e)) n))"
    by (rule Suc.IH)
  moreover have "0 \<le> fst (tick e) \<and> fst (tick e) \<le> 1"
    using Suc.prems by (rule tick_value_range)
  ultimately show ?case
    by (simp add: split_def Let_def del: tick.simps)
qed

lemma init_inv: "0 \<le> s \<Longrightarrow> s \<le> 1 \<Longrightarrow> env_inv (ADSREnvelope_init a d s r)"
  by (simp add: env_inv_def ADSREnvelope_init_def)

text \<open>
  C8: an envelope constructed with parameters in their documented ranges, after any
  sequence of note-ons, note-offs, ticks and in-range parameter assignments, has its
  level in \<open>[0, 1]\<close>, and every value of a block rendered from there lies in
  \<open>[0, 1]\<close>.
\<close>

theorem envelope_level_in_unit_interval:
  assumes "params_in_range a d s r" and "list_all op_in_range xs"
  shows "0 \<le> level (foldl env_apply (ADSREnvelope_init a d s r) xs)
       \<and> level (foldl env_apply (ADSREnvelope_init a d s r) xs) \<le> 1
       \<and> list_all (\<lambda>v. 0 \<le> v \<and> v \<le> 1)
            (fst (env_render_block (foldl env_apply (ADSREnvelope_init a d s r) xs) n))"
proof -
  have "env_inv (ADSREnvelope_init a d s r)"
    using assms(1) by (simp add: params_in_range_def init_inv)
  then have inv: "env_inv (foldl env_apply (ADSREnvelope_init a d s r) xs)"
    using assms(2) by (rule env_run_inv)
  then show ?thesis
    using env_render_block_range [OF inv, of n] by (simp add: env_inv_def)
qed

theorem envelope_level_in_unit_interval_witness:
  "params_in_range 0.01 0.1 0.7 0.3
   \<and> list_all op_in_range [OpNoteOn, OpTick, SetSustain 0.5, OpNoteOff, OpTick]
   \<and> 0 \<le> level (foldl env_apply (ADSREnvelope_init 0.01 0.1 0.7 0.3)
                 [OpNoteOn, OpTick, SetSustain 0.5, OpNoteOff, OpTick])
   \<and> level (foldl env_apply (ADSREnvelope_init 0.01 0.1 0.7 0.3)
             [OpNoteOn, OpTick, SetSustain 0.5, OpNoteOff, OpTick]) \<le> 1
   \<and> list_all (\<lambda>v. 0 \<le> v \<and> v \<le> 1)
        (fst (env_render_block (foldl env_apply (ADSREnvelope_init 0.01 0.1 0.7 0.3)
                 [OpNoteOn, OpTick, SetSustain 0.5, OpNoteOff, OpTick]) 2))"
proof -
  have h1: "params_in_range 0.01 0.1 0.7 0.3"
    by (simp add: params_in_range_def)
  have h2: "list_all op_in_range [OpNoteOn, OpTick, SetSustain 0.5, OpNoteOff, OpTick]"
    by simp
  show ?thesis
    using h1 h2 envelope_level_in_unit_interval [OF h1 h2, of 2] by blast
qed

section \<open>Voice pool: allocation and note-off\<close>

lemma py_index_mod4: "py_index 4 (t mod N_VOICES) = Some (nat (t mod 4))"
  by (simp add: py_index_def N_VOICES_def)

lemma nat_mod4_less: "nat (t mod 4) < 4"
  by simp

lemma not_free_after_note_on: "\<not> is_free (voice_note_on sh v n vel)"
  by (simp add: is_free_def voice_note_on_def)

lemma make_engine_inactive: "\<not> engine_is_active (make_engine name)"
  by (simp add: make_engine_def ENGINE_CLASSES_def fm_is_active_def vector_is_active_def
      subtractive_is_active_def FMEngine_init_def FMOperator_init_def VectorEngine_init_def
      SubtractiveEngine_init_def ADSREnvelope_init_def env_is_active_def)

lemma Voice_init_free: "is_free (Voice_init name)"
  by (simp add: is_free_def Voice_init_def make_engine_inactive)

lemma auto_step_free:
  assumes "first_free (voices p) = Some j"
  shows "auto_note_ons sh p ((n, vel) # evs) =
     (case auto_note_ons sh (p\<lparr>voices := (voices p)[j := voice_note_on sh (voices p ! j) n vel]\<rparr>) evs
      of Inl err \<Rightarrow> Inl err | Inr (js, p2) \<Rightarrow> Inr (j # js, p2))"
  using assms by (simp add: select_voice_def allocate_def note_on_def)

lemma auto_step_steal:
  assumes "first_free (voices p) = None" and "length (voices p) = 4"
  shows "auto_note_ons sh p ((n, vel) # evs) =
     (case auto_note_ons sh
        (p\<lparr>next_voice := (next_voice p + 1) mod 4,
           voices := (voices p)[nat (next_voice p mod 4) :=
                        voice_note_on sh (voices p ! nat (next_voice p mod 4)) n vel]\<rparr>) evs
      of Inl err \<Rightarrow> Inl err | Inr (js, p2) \<Rightarrow> Inr (nat (next_voice p mod 4) # js, p2))"
  using assms by (simp add: select_voice_def allocate_def note_on_def py_index_mod4)
    (simp add: N_VOICES_def)

lemma five_note_ons:
  assumes "is_free a" "is_free b" "is_free c" "is_free d"
  shows "auto_note_ons sh \<lparr>voices = [a, b, c, d], next_voice = 0\<rparr>
           [(n1, v1), (n2, v2), (n3, v3), (n4, v4), (n5, v5)]
         = Inr ([0, 1, 2, 3, 0],
              \<lparr>voices = [voice_note_on sh (voice_note_on sh a n1 v1) n5 v5,
                         voice_note_on sh b n2 v2, voice_note_on sh c n3 v3,
                         voice_note_on sh d n4 v4],
               next_voice = 1\<rparr>)"
proof -
  let ?a1 = "voice_note_on sh a n1 v1"
  let ?b1 = "voice_note_on sh b n2 v2"
  let ?c1 = "voice_note_on sh c n3 v3"
  let ?d1 = "voice_note_on sh d n4 v4"
  let ?p0 = "\<lparr>voices = [a, b, c, d], next_voice = 0\<rparr>"
  let ?p1 = "\<lparr>voices = [?a1, b, c, d], next_voice = 0\<rparr>"
  let ?p2 = "\<lparr>voices = [?a1, ?b1, c, d], next_voice = 0\<rparr>"
  let ?p3 = "\<lparr>voices = [?a1, ?b1, ?c1, d], next_voice = 0\<rparr>"
  let ?p4 = "\<lparr>voices = [?a1, ?b1, ?c1, ?d1], next_voice = 0\<rparr>"
  let ?p5 = "\<lparr>voices = [voice_note_on sh ?a1 n5 v5, ?b1, ?c1, ?d1], next_voice = 1\<rparr>"
  have f0: "first_free (voices ?p0) = Some 0"
    using assms by simp
  have f1: "first_free (voices ?p1) = Some 1"
    using assms by (simp add: not_free_after_note_on)
  have f2: "first_free (voices ?p2) = Some 2"
    using assms by (simp add: not_free_after_note_on)
  have f3: "first_free (voices ?p3) = Some 3"
    using assms by (simp add: not_free_after_note_on)
  have f4: "first_free (voices ?p4) = None"
    by (simp add: not_free_after_note_on)
  have s5: "auto_note_ons sh ?p4 [(n5, v5)] = Inr ([0], ?p5)"
    by (subst auto_step_steal [OF f4]) simp_all
  have s4: "auto_note_ons sh ?p3 [(n4, v4), (n5, v5)] = Inr ([3, 0], ?p5)"
    by (subst auto_step_free [OF f3]) (simp add: s5 del: auto_note_ons.simps)
  have s3: "auto_note_ons sh ?p2 [(n3, v3), (n4, v4), (n5, v5)] = Inr ([2, 3, 0], ?p5)"
    by (subst auto_step_free [OF f2]) (simp add: s4 del: auto_note_ons.simps)
  have s2: "auto_note_ons sh ?p1 [(n2, v2), (n3, v3), (n4, v4), (n5, v5)]
      = Inr ([1, 2, 3, 0], ?p5)"
    by (subst auto_step_free [OF f1]) (simp add: s3 del: auto_note_ons.simps)
  show ?thesis
    by (subst auto_step_free [OF f0]) (simp add: s2 del: auto_note_ons.simps)
qed

lemma steal_advances:
  assumes "first_free (voices p) = None" and "length (voices p) = 4"
  shows "allocate p = Inr (nat (next_voice p mod 4), p\<lparr>next_voice := (next_voice p + 1) mod 4\<rparr>)"
  using assms by (simp add: allocate_def py_index_mod4) (simp add: N_VOICES_def)

lemma first_free_Some_iff:
  "first_free vs = Some j \<longleftrightarrow>
     j < length vs \<and> is_free (vs ! j) \<and> (\<forall>i<j. \<not> is_free (vs ! i))"
proof (induction vs arbitrary: j)
  case Nil
  show ?case by simp
next
  case (Cons v vs)
  show ?case
  proof (cases "is_free v")
    case True
    then show ?thesis by (cases j) auto
  next
    case False
    show ?thesis
    proof (cases j)
      case 0
      with False show ?thesis by auto
    next
      case (Suc k)
      have "first_free (v # vs) = Some (Suc k) \<longleftrightarrow> first_free vs = Some k"
        using False by auto
      also have "\<dots> \<longleftrightarrow> k < length vs \<and> is_free (vs ! k) \<and> (\<forall>i<k. \<not> is_free (vs ! i))"
        by (rule Cons.IH)
      also have "\<dots> \<longleftrightarrow> Suc k < length (v # vs) \<and> is_free ((v # vs) ! Suc k)
          \<and> (\<forall>i<Suc k. \<not> is_free ((v # vs) ! i))"
        using False by (auto simp: less_Suc_eq_0_disj)
      finally show ?thesis using Suc by simp
    qed
  qed
qed

lemma first_free_None_iff:
  "first_free vs = None \<longleftrightarrow> (\<forall>i<length vs. \<not> is_free (vs ! i))"
proof (induction vs)
  case Nil
  show ?case by simp
next
  case (Cons v vs)
  show ?case
    using Cons.IH by (auto simp: less_Suc_eq_0_disj)
qed

lemma allocate_free:
  assumes "j < length (voices p)" "is_free (voices p ! j)" "\<forall>i<j. \<not> is_free (voices p ! i)"
  shows "allocate p = Inr (j, p)"
proof -
  have "first_free (voices p) = Some j"
    using assms by (simp add: first_free_Some_iff)
  then show ?thesis by (simp add: allocate_def)
qed

lemma allocate_steal:
  assumes "length (voices p) = 4" "\<forall>i<4. \<not> is_free (voices p ! i)"
  shows "allocate p = Inr (nat (next_voice p mod 4), p\<lparr>next_voice := (next_voice p + 1) mod 4\<rparr>)"
proof -
  have "first_free (voices p) = None"
    using assms by (simp add: first_free_None_iff)
  then show ?thesis using assms(1) by (rule steal_advances)
qed

lemma auto_note_ons_append:
  "auto_note_ons sh p (xs @ ys) =
     (case auto_note_ons sh p xs of
        Inl err \<Rightarrow> Inl err
      | Inr (js, p1) \<Rightarrow>
          (case auto_note_ons sh p1 ys of
             Inl err \<Rightarrow> Inl err
           | Inr (ks, p2) \<Rightarrow> Inr (js @ ks, p2)))"
proof (induction xs arbitrary: p)
  case Nil
  show ?case by (simp split: sum.splits prod.splits)
next
  case (Cons x xs)
  obtain n vel where x: "x = (n, vel)" by (cases x)
  show ?case
    by (simp add: x Cons.IH split: sum.splits prod.splits)
qed

lemma one_note_on_free:
  assumes "first_free (voices p) = Some j"
  shows "auto_note_ons sh p [(n, vel)] =
     Inr ([j], p\<lparr>voices := (voices p)[j := voice_note_on sh (voices p ! j) n vel]\<rparr>)"
  by (subst auto_step_free [OF assms]) simp

lemma one_note_on_steal:
  assumes "first_free (voices p) = None" and "length (voices p) = 4"
  shows "auto_note_ons sh p [(n, vel)] =
     Inr ([nat (next_voice p mod 4)],
          p\<lparr>next_voice := (next_voice p + 1) mod 4,
            voices := (voices p)[nat (next_voice p mod 4) :=
                         voice_note_on sh (voices p ! nat (next_voice p mod 4)) n vel]\<rparr>)"
  by (subst auto_step_steal [OF assms]) simp

lemma note_on_prefixes:
  assumes "is_free a" "is_free b" "is_free c" "is_free d"
  shows "auto_note_ons sh \<lparr>voices = [a, b, c, d], next_voice = 0\<rparr> [(n1, v1)]
           = Inr ([0], \<lparr>voices = [voice_note_on sh a n1 v1, b, c, d], next_voice = 0\<rparr>)"
    and "auto_note_ons sh \<lparr>voices = [a, b, c, d], next_voice = 0\<rparr> [(n1, v1), (n2, v2)]
           = Inr ([0, 1], \<lparr>voices = [voice_note_on sh a n1 v1, voice_note_on sh b n2 v2, c, d],
                            next_voice = 0\<rparr>)"
    and "auto_note_ons sh \<lparr>voices = [a, b, c, d], next_voice = 0\<rparr> [(n1, v1), (n2, v2), (n3, v3)]
           = Inr ([0, 1, 2], \<lparr>voices = [voice_note_on sh a n1 v1, voice_note_on sh b n2 v2,
                                         voice_note_on sh c n3 v3, d], next_voice = 0\<rparr>)"
    and "auto_note_ons sh \<lparr>voices = [a, b, c, d], next_voice = 0\<rparr>
           [(n1, v1), (n2, v2), (n3, v3), (n4, v4)]
           = Inr ([0, 1, 2, 3], \<lparr>voices = [voice_note_on sh a n1 v1, voice_note_on sh b n2 v2,
                                            voice_note_on sh c n3 v3, voice_note_on sh d n4 v4],
                                  next_voice = 0\<rparr>)"
proof -
  let ?a1 = "voice_note_on sh a n1 v1"
  let ?b1 = "voice_note_on sh b n2 v2"
  let ?c1 = "voice_note_on sh c n3 v3"
  let ?d1 = "voice_note_on sh d n4 v4"
  let ?p0 = "\<lparr>voices = [a, b, c, d], next_voice = 0\<rparr>"
  let ?p1 = "\<lparr>voices = [?a1, b, c, d], next_voice = 0\<rparr>"
  let ?p2 = "\<lparr>voices = [?a1, ?b1, c, d], next_voice = 0\<rparr>"
  let ?p3 = "\<lparr>voices = [?a1, ?b1, ?c1, d], next_voice = 0\<rparr>"
  let ?p4 = "\<lparr>voices = [?a1, ?b1, ?c1, ?d1], next_voice = 0\<rparr>"
  have f0: "first_free (voices ?p0) = Some 0"
    using assms by simp
  have f1: "first_free (voices ?p1) = Some 1"
    using assms by (simp add: not_free_after_note_on)
  have f2: "first_free (voices ?p2) = Some 2"
    using assms by (simp add: not_free_after_note_on)
  have f3: "first_free (voices ?p3) = Some 3"
    using assms by (simp add: not_free_after_note_on)
  have t1: "auto_note_ons sh ?p0 [(n1, v1)] = Inr ([0], ?p1)"
    by (subst one_note_on_free [OF f0]) simp
  have t2: "auto_note_ons sh ?p1 [(n2, v2)] = Inr ([1], ?p2)"
    by (subst one_note_on_free [OF f1]) simp
  have t3: "auto_note_ons sh ?p2 [(n3, v3)] = Inr ([2], ?p3)"
    by (subst one_note_on_free [OF f2]) simp
  have t4: "auto_note_ons sh ?p3 [(n4, v4)] = Inr ([3], ?p4)"
    by (subst one_note_on_free [OF f3]) simp
  show r1: "auto_note_ons sh ?p0 [(n1, v1)] = Inr ([0], ?p1)"
    by (rule t1)
  show r2: "auto_note_ons sh ?p0 [(n1, v1), (n2, v2)] = Inr ([0, 1], ?p2)"
    using auto_note_ons_append [of sh ?p0 "[(n1, v1)]" "[(n2, v2)]"]
    by (simp only: r1 t2 sum.case prod.case append.simps)
  show r3: "auto_note_ons sh ?p0 [(n1, v1), (n2, v2), (n3, v3)] = Inr ([0, 1, 2], ?p3)"
    using auto_note_ons_append [of sh ?p0 "[(n1, v1), (n2, v2)]" "[(n3, v3)]"]
    by (simp only: r2 t3 sum.case prod.case append.simps)
  show "auto_note_ons sh ?p0 [(n1, v1), (n2, v2), (n3, v3), (n4, v4)] = Inr ([0, 1, 2, 3], ?p4)"
    using auto_note_ons_append [of sh ?p0 "[(n1, v1), (n2, v2), (n3, v3)]" "[(n4, v4)]"]
    by (simp only: r3 t4 sum.case prod.case append.simps)
qed

text \<open>
  C4: from a freshly constructed pool all four voices are free and the cursor is 0.
  Five auto-allocated note-ons with no note-off between them go to the voices
  0, 1, 2, 3, 0, whatever their notes and velocities. Each of the first four goes to
  the lowest free voice and leaves the cursor at 0; after them no voice is free, and
  the fifth steals voice 0, which then holds the fifth note, and moves the cursor to 1.
  In general the allocation returns the first free voice in index order and leaves
  the cursor alone; when no voice is free it returns the voice under the cursor and
  advances the cursor by one modulo 4.
\<close>

theorem voice_stealing_order:
  "(\<exists>p1 p2 p3 p4 p5.
      map is_free (voices VoicePool_init) = [True, True, True, True]
      \<and> next_voice VoicePool_init = 0
      \<and> auto_note_ons sh VoicePool_init [(n1, v1)] = Inr ([0], p1)
      \<and> map is_free (voices p1) = [False, True, True, True] \<and> next_voice p1 = 0
      \<and> auto_note_ons sh VoicePool_init [(n1, v1), (n2, v2)] = Inr ([0, 1], p2)
      \<and> map is_free (voices p2) = [False, False, True, True] \<and> next_voice p2 = 0
      \<and> auto_note_ons sh VoicePool_init [(n1, v1), (n2, v2), (n3, v3)] = Inr ([0, 1, 2], p3)
      \<and> map is_free (voices p3) = [False, False, False, True] \<and> next_voice p3 = 0
      \<and> auto_note_ons sh VoicePool_init [(n1, v1), (n2, v2), (n3, v3), (n4, v4)]
          = Inr ([0, 1, 2, 3], p4)
      \<and> map is_free (voices p4) = [False, False, False, False] \<and> next_voice p4 = 0
      \<and> map current_note (voices p4) = [Some n1, Some n2, Some n3, Some n4]
      \<and> auto_note_ons sh VoicePool_init [(n1, v1), (n2, v2), (n3, v3), (n4, v4), (n5, v5)]
          = Inr ([0, 1, 2, 3, 0], p5)
      \<and> map is_free (voices p5) = [False, False, False, False] \<and> next_voice p5 = 1
      \<and> map current_note (voices p5) = [Some n5, Some n2, Some n3, Some n4])
   \<and> (j < length (voices p) \<and> is_free (voices p ! j) \<and> (\<forall>i<j. \<not> is_free (voices p ! i))
        \<longrightarrow> allocate p = Inr (j, p))
   \<and> (length (voices p) = 4 \<and> (\<forall>i<4. \<not> is_free (voices p ! i))
        \<longrightarrow> allocate p = Inr (nat (next_voice p mod 4),
                              p\<lparr>next_voice := (next_voice p + 1) mod 4\<rparr>))"
proof -
  let ?a = "Voice_init ''fm''" and ?b = "Voice_init ''vector''"
  let ?c = "Voice_init ''subtractive''" and ?d = "Voice_init ''fm''"
  let ?a1 = "voice_note_on sh ?a n1 v1"
  let ?b1 = "voice_note_on sh ?b n2 v2"
  let ?c1 = "voice_note_on sh ?c n3 v3"
  let ?d1 = "voice_note_on sh ?d n4 v4"
  let ?p1 = "\<lparr>voices = [?a1, ?b, ?c, ?d], next_voice = 0\<rparr>"
  let ?p2 = "\<lparr>voices = [?a1, ?b1, ?c, ?d], next_voice = 0\<rparr>"
  let ?p3 = "\<lparr>voices = [?a1, ?b1, ?c1, ?d], next_voice = 0\<rparr>"
  let ?p4 = "\<lparr>voices = [?a1, ?b1, ?c1, ?d1], next_voice = 0\<rparr>"
  let ?p5 = "\<lparr>voices = [voice_note_on sh ?a1 n5 v5, ?b1, ?c1, ?d1], next_voice = 1\<rparr>"
  have init: "VoicePool_init = \<lparr>voices = [?a, ?b, ?c, ?d], next_voice = 0\<rparr>"
    by (simp add: VoicePool_init_def)
  note fr = Voice_init_free [of "''fm''"] Voice_init_free [of "''vector''"]
    Voice_init_free [of "''subtractive''"]
  note pre = note_on_prefixes [OF Voice_init_free Voice_init_free Voice_init_free Voice_init_free,
      of sh "''fm''" "''vector''" "''subtractive''" "''fm''"]
  have r0: "map is_free (voices VoicePool_init) = [True, True, True, True]"
    by (simp add: init fr)
  have n0: "next_voice VoicePool_init = 0"
    by (simp add: init)
  have r1: "auto_note_ons sh VoicePool_init [(n1, v1)] = Inr ([0], ?p1)"
    unfolding init by (rule pre(1))
  have r2: "auto_note_ons sh VoicePool_init [(n1, v1), (n2, v2)] = Inr ([0, 1], ?p2)"
    unfolding init by (rule pre(2))
  have r3: "auto_note_ons sh VoicePool_init [(n1, v1), (n2, v2), (n3, v3)] = Inr ([0, 1, 2], ?p3)"
    unfolding init by (rule pre(3))
  have r4: "auto_note_ons sh VoicePool_init [(n1, v1), (n2, v2), (n3, v3), (n4, v4)]
      = Inr ([0, 1, 2, 3], ?p4)"
    unfolding init by (rule pre(4))
  have r5: "auto_note_ons sh VoicePool_init [(n1, v1), (n2, v2), (n3, v3), (n4, v4), (n5, v5)]
      = Inr ([0, 1, 2, 3, 0], ?p5)"
    unfolding init
    by (rule five_note_ons [OF Voice_init_free Voice_init_free Voice_init_free Voice_init_free])
  have f1: "map is_free (voices ?p1) = [False, True, True, True]"
    by (simp add: fr not_free_after_note_on)
  have f2: "map is_free (voices ?p2) = [False, False, True, True]"
    by (simp add: fr not_free_after_note_on)
  have f3: "map is_free (voices ?p3) = [False, False, False, True]"
    by (simp add: fr not_free_after_note_on)
  have f4: "map is_free (voices ?p4) = [False, False, False, False]"
    by (simp add: not_free_after_note_on)
  have f5: "map is_free (voices ?p5) = [False, False, False, False]"
    by (simp add: not_free_after_note_on)
  have c4: "map current_note (voices ?p4) = [Some n1, Some n2, Some n3, Some n4]"
    by (simp add: voice_note_on_def)
  have c5: "map current_note (voices ?p5) = [Some n5, Some n2, Some n3, Some n4]"
    by (simp add: voice_note_on_def)
  have runs: "\<exists>p1 p2 p3 p4 p5.
      map is_free (voices VoicePool_init) = [True, True, True, True]
      \<and> next_voice VoicePool_init = 0
      \<and> auto_note_ons sh VoicePool_init [(n1, v1)] = Inr ([0], p1)
      \<and> map is_free (voices p1) = [False, True, True, True] \<and> next_voice p1 = 0
      \<and> auto_note_ons sh VoicePool_init [(n1, v1), (n2, v2)] = Inr ([0, 1], p2)
      \<and> map is_free (voices p2) = [False, False, True, True] \<and> next_voice p2 = 0
      \<and> auto_note_ons sh VoicePool_init [(n1, v1), (n2, v2), (n3, v3)] = Inr ([0, 1, 2], p3)
      \<and> map is_free (voices p3) = [False, False, False, True] \<and> next_voice p3 = 0
      \<and> auto_note_ons sh VoicePool_init [(n1, v1), (n2, v2), (n3, v3), (n4, v4)]
          = Inr ([0, 1, 2, 3], p4)
      \<and> map is_free (voices p4) = [False, False, False, False] \<and> next_voice p4 = 0
      \<and> map current_note (voices p4) = [Some n1, Some n2, Some n3, Some n4]
      \<and> auto_note_ons sh VoicePool_init [(n1, v1), (n2, v2), (n3, v3), (n4, v4), (n5, v5)]
          = Inr ([0, 1, 2, 3, 0], p5)
      \<and> map is_free (voices p5) = [False, False, False, False] \<and> next_voice p5 = 1
      \<and> map current_note (voices p5) = [Some n5, Some n2, Some n3, Some n4]"
    apply (rule exI [of _ ?p1], rule exI [of _ ?p2], rule exI [of _ ?p3],
        rule exI [of _ ?p4], rule exI [of _ ?p5])
    apply (intro conjI r0 n0 r1 r2 r3 r4 r5 f1 f2 f3 f4 f5 c4 c5)
    apply simp_all
    done
  have free: "j < length (voices p) \<and> is_free (voices p ! j) \<and> (\<forall>i<j. \<not> is_free (voices p ! i))
        \<longrightarrow> allocate p = Inr (j, p)"
    using allocate_free [of j p] by blast
  have steal: "length (voices p) = 4 \<and> (\<forall>i<4. \<not> is_free (voices p ! i))
        \<longrightarrow> allocate p = Inr (nat (next_voice p mod 4),
                              p\<lparr>next_voice := (next_voice p + 1) mod 4\<rparr>)"
    using allocate_steal [of p] by blast
  from runs free steal show ?thesis by (intro conjI)
qed

theorem voice_stealing_order_witness:
  "(\<exists>p5. auto_note_ons id VoicePool_init [(60, 100), (62, 100), (64, 100), (65, 100), (67, 100)]
           = Inr ([0, 1, 2, 3, 0], p5) \<and> next_voice p5 = 1
           \<and> map current_note (voices p5) = [Some 67, Some 62, Some 64, Some 65])
   \<and> \<not> is_free (voices \<lparr>voices = [voice_note_on id (Voice_init ''fm'') 60 100,
          Voice_init ''vector'', Voice_init ''subtractive'', Voice_init ''fm''], next_voice = 0\<rparr> ! 0)
   \<and> is_free (voices \<lparr>voices = [voice_note_on id (Voice_init ''fm'') 60 100,
          Voice_init ''vector'', Voice_init ''subtractive'', Voice_init ''fm''], next_voice = 0\<rparr> ! 1)
   \<and> allocate \<lparr>voices = [voice_note_on id (Voice_init ''fm'') 60 100,
          Voice_init ''vector'', Voice_init ''subtractive'', Voice_init ''fm''], next_voice = 0\<rparr>
       = Inr (1, \<lparr>voices = [voice_note_on id (Voice_init ''fm'') 60 100,
          Voice_init ''vector'', Voice_init ''subtractive'', Voice_init ''fm''], next_voice = 0\<rparr>)
   \<and> map is_free (voices \<lparr>voices = [voice_note_on id (Voice_init ''fm'') 60 100,
          voice_note_on id (Voice_init ''vector'') 62 100,
          voice_note_on id (Voice_init ''subtractive'') 64 100,
          voice_note_on id (Voice_init ''fm'') 65 100], next_voice = 2\<rparr>)
       = [False, False, False, False]
   \<and> allocate \<lparr>voices = [voice_note_on id (Voice_init ''fm'') 60 100,
          voice_note_on id (Voice_init ''vector'') 62 100,
          voice_note_on id (Voice_init ''subtractive'') 64 100,
          voice_note_on id (Voice_init ''fm'') 65 100], next_voice = 2\<rparr>
       = Inr (2, \<lparr>voices = [voice_note_on id (Voice_init ''fm'') 60 100,
          voice_note_on id (Voice_init ''vector'') 62 100,
          voice_note_on id (Voice_init ''subtractive'') 64 100,
          voice_note_on id (Voice_init ''fm'') 65 100], next_voice = 3\<rparr>)"
proof -
  let ?pf = "\<lparr>voices = [voice_note_on id (Voice_init ''fm'') 60 100,
          Voice_init ''vector'', Voice_init ''subtractive'', Voice_init ''fm''], next_voice = 0\<rparr>"
  let ?pb = "\<lparr>voices = [voice_note_on id (Voice_init ''fm'') 60 100,
          voice_note_on id (Voice_init ''vector'') 62 100,
          voice_note_on id (Voice_init ''subtractive'') 64 100,
          voice_note_on id (Voice_init ''fm'') 65 100], next_voice = 2\<rparr>"
  have h0: "\<not> is_free (voices ?pf ! 0)"
    by (simp add: not_free_after_note_on)
  have h1: "is_free (voices ?pf ! 1)"
    by (simp add: Voice_init_free)
  have hf: "1 < length (voices ?pf) \<and> is_free (voices ?pf ! 1)
      \<and> (\<forall>i<1. \<not> is_free (voices ?pf ! i))"
    using h0 h1 by simp
  have hb: "map is_free (voices ?pb) = [False, False, False, False]"
    by (simp add: not_free_after_note_on)
  have "\<not> is_free (voices ?pb ! i)" if "i < 4" for i
  proof -
    from that have "i = 0 \<or> i = 1 \<or> i = 2 \<or> i = 3" by arith
    then show ?thesis by (auto simp: not_free_after_note_on)
  qed
  then have hs: "length (voices ?pb) = 4 \<and> (\<forall>i<4. \<not> is_free (voices ?pb ! i))"
    by simp
  note T = voice_stealing_order [of id 60 100 62 100 64 100 65 100 67 100]
  have "1 < length (voices ?pf) \<and> is_free (voices ?pf ! 1)
      \<and> (\<forall>i<1. \<not> is_free (voices ?pf ! i)) \<longrightarrow> allocate ?pf = Inr (1, ?pf)"
    by (rule T [of 1 ?pf, THEN conjunct2, THEN conjunct1])
  from this hf have a1: "allocate ?pf = Inr (1, ?pf)"
    by (rule mp)
  have "length (voices ?pb) = 4 \<and> (\<forall>i<4. \<not> is_free (voices ?pb ! i))
      \<longrightarrow> allocate ?pb = Inr (nat (next_voice ?pb mod 4),
                                  ?pb\<lparr>next_voice := (next_voice ?pb + 1) mod 4\<rparr>)"
    by (rule T [of 0 ?pb, THEN conjunct2, THEN conjunct2])
  from this hs have a2: "allocate ?pb = Inr (nat (next_voice ?pb mod 4),
                                  ?pb\<lparr>next_voice := (next_voice ?pb + 1) mod 4\<rparr>)"
    by (rule mp)
  have a3: "\<exists>p5. auto_note_ons id VoicePool_init
        [(60, 100), (62, 100), (64, 100), (65, 100), (67, 100)] = Inr ([0, 1, 2, 3, 0], p5)
           \<and> next_voice p5 = 1
           \<and> map current_note (voices p5) = [Some 67, Some 62, Some 64, Some 65]"
    using T [of 0 ?pb, THEN conjunct1]
    apply (elim exE conjE)
    apply (rule exI)
    apply (intro conjI)
    apply assumption+
    done
  from a2 have a2': "allocate ?pb = Inr (2, \<lparr>voices = [voice_note_on id (Voice_init ''fm'') 60 100,
          voice_note_on id (Voice_init ''vector'') 62 100,
          voice_note_on id (Voice_init ''subtractive'') 64 100,
          voice_note_on id (Voice_init ''fm'') 65 100], next_voice = 3\<rparr>)"
    by simp
  from a3 h0 h1 a1 hb a2' show ?thesis
    apply (intro conjI)
    apply assumption+
    done
qed

lemma note_off_target:
  assumes "length (voices p) = 4"
  shows "note_off p (Some t) n =
     Inr (if current_note (voices p ! nat (t mod 4)) = Some n
          then p\<lparr>voices := (voices p)[nat (t mod 4) := voice_note_off (voices p ! nat (t mod 4))]\<rparr>
          else p)"
  using assms by (simp add: note_off_def py_index_mod4)

lemma env_note_off_effect:
  "state (env_note_off x) = (if state x = IDLE then IDLE else RELEASE)"
  "level (env_note_off x) = level x"
  "state x \<noteq> IDLE \<Longrightarrow> release_level (env_note_off x) = level x"
  by (simp_all add: env_note_off_def)

lemma envelopes_note_off:
  "envelopes (engine_note_off e) = map env_note_off (envelopes e)"
  by (cases e)
    (simp_all add: fm_note_off_def op_note_off_def vector_note_off_def subtractive_note_off_def)

lemma released_states:
  "list_all (\<lambda>x. state x = IDLE \<or> state x = RELEASE) (map env_note_off es)"
  by (induction es) (simp_all add: env_note_off_effect)

lemma active_gets_released:
  assumes "engine_is_active e"
  shows "list_ex (\<lambda>x. state x = RELEASE) (envelopes (engine_note_off e))"
proof -
  have "list_ex (\<lambda>x. state x \<noteq> IDLE) (envelopes e)"
    using assms
    by (cases e)
      (simp_all add: fm_is_active_def vector_is_active_def subtractive_is_active_def
        env_is_active_def list_ex_iff)
  then have "list_ex (\<lambda>x. state x = RELEASE) (map env_note_off (envelopes e))"
    by (auto simp: list_ex_iff env_note_off_effect)
  then show ?thesis by (simp only: envelopes_note_off)
qed

lemma voice_note_off_effect:
  "envelopes (engine (voice_note_off v)) = map env_note_off (envelopes (engine v))"
  "list_all (\<lambda>x. state x = IDLE \<or> state x = RELEASE) (envelopes (engine (voice_note_off v)))"
  "current_note (voice_note_off v) = current_note v"
  "active (voice_note_off v) = active v"
  by (simp_all add: voice_note_off_def envelopes_note_off released_states)

lemma voice_note_off_sounding:
  assumes "engine_is_active (engine v)"
  shows "list_ex (\<lambda>x. state x = RELEASE) (envelopes (engine (voice_note_off v)))"
proof -
  have "engine (voice_note_off v) = engine_note_off (engine v)"
    by (simp add: voice_note_off_def)
  then show ?thesis
    using active_gets_released [OF assms] by simp
qed

lemma note_off_target_pointwise:
  assumes "length (voices p) = 4"
  shows "\<exists>p'. note_off p (Some t) n = Inr p' \<and> next_voice p' = next_voice p
            \<and> length (voices p') = 4
            \<and> (\<forall>j<4. voices p' ! j =
                  (if j = nat (t mod 4) \<and> current_note (voices p ! j) = Some n
                   then voice_note_off (voices p ! j) else voices p ! j))"
  using assms by (simp add: note_off_target nth_list_update)

lemma note_off_broadcast_pointwise:
  assumes "length (voices p) = 4"
  shows "\<exists>p'. note_off p None n = Inr p' \<and> next_voice p' = next_voice p
            \<and> length (voices p') = 4
            \<and> (\<forall>j<4. voices p' ! j =
                  (if current_note (voices p ! j) = Some n
                   then voice_note_off (voices p ! j) else voices p ! j))"
  using assms by (simp add: note_off_def)

text \<open>
  C5: in a pool of four voices, a note-off with an explicit target releases the
  targeted voice (index modulo 4) exactly when that voice's current note is the given
  note, and leaves every other voice as it was, also one holding the same note; a
  note-off without target releases exactly the voices whose current note is the given
  note. The cursor is untouched. Releasing a voice sends each of its engine's
  envelopes through the envelope's note-off: an envelope that was not idle is in
  release afterwards, starting from the level it had, so no envelope of a released
  voice is left in attack, decay or sustain, and a sounding voice has an envelope in
  release.
\<close>

theorem note_off_precision:
  assumes "length (voices p) = 4"
  shows "(\<exists>p'. note_off p (Some t) n = Inr p' \<and> next_voice p' = next_voice p
            \<and> length (voices p') = 4
            \<and> (\<forall>j<4. voices p' ! j =
                  (if j = nat (t mod 4) \<and> current_note (voices p ! j) = Some n
                   then voice_note_off (voices p ! j) else voices p ! j)))
       \<and> (\<exists>p'. note_off p None n = Inr p' \<and> next_voice p' = next_voice p
            \<and> length (voices p') = 4
            \<and> (\<forall>j<4. voices p' ! j =
                  (if current_note (voices p ! j) = Some n
                   then voice_note_off (voices p ! j) else voices p ! j)))
       \<and> envelopes (engine (voice_note_off v)) = map env_note_off (envelopes (engine v))
       \<and> list_all (\<lambda>x. state x = IDLE \<or> state x = RELEASE)
            (envelopes (engine (voice_note_off v)))
       \<and> (engine_is_active (engine v) \<longrightarrow>
            list_ex (\<lambda>x. state x = RELEASE) (envelopes (engine (voice_note_off v))))
       \<and> state (env_note_off x) = (if state x = IDLE then IDLE else RELEASE)
       \<and> level (env_note_off x) = level x
       \<and> (state x \<noteq> IDLE \<longrightarrow> release_level (env_note_off x) = level x)"
  using note_off_target_pointwise [OF assms, of t n] note_off_broadcast_pointwise [OF assms, of n]
    voice_note_off_effect(1,2) [of v] voice_note_off_sounding [of v] env_note_off_effect [of x]
  apply (intro conjI impI)
  apply assumption+
  done

lemma sounding_subtractive:
  "envelopes (engine (voice_note_on id (Voice_init ''subtractive'') 60 100))
     = [env_note_on (ADSREnvelope_init 0.005 0.15 0.7 0.3),
        env_note_on (ADSREnvelope_init 0.005 0.25 0.3 0.3)]"
  by (simp add: voice_note_on_def Voice_init_def make_engine_def ENGINE_CLASSES_def
      subtractive_note_on_def SubtractiveEngine_init_def trigger_note_def Let_def)

theorem note_off_precision_witness:
  "length (voices \<lparr>voices = [voice_note_on id (Voice_init ''fm'') 60 100, Voice_init ''vector'',
                             voice_note_on id (Voice_init ''subtractive'') 60 100,
                             Voice_init ''fm''], next_voice = 0\<rparr>) = 4
   \<and> engine_is_active (engine (voice_note_on id (Voice_init ''subtractive'') 60 100))
   \<and> state (env_note_on (ADSREnvelope_init 0.005 0.15 0.7 0.3)) \<noteq> IDLE
   \<and> (\<exists>p'. note_off \<lparr>voices = [voice_note_on id (Voice_init ''fm'') 60 100, Voice_init ''vector'',
                             voice_note_on id (Voice_init ''subtractive'') 60 100,
                             Voice_init ''fm''], next_voice = 0\<rparr> (Some 2) 60 = Inr p'
         \<and> voices p' ! 0 = voice_note_on id (Voice_init ''fm'') 60 100
         \<and> voices p' ! 2 = voice_note_off (voice_note_on id (Voice_init ''subtractive'') 60 100)
         \<and> voices p' ! 2 \<noteq> voice_note_on id (Voice_init ''subtractive'') 60 100
         \<and> list_ex (\<lambda>x. state x = RELEASE) (envelopes (engine (voices p' ! 2))))
   \<and> state (env_note_off (env_note_on (ADSREnvelope_init 0.005 0.15 0.7 0.3))) = RELEASE"
proof -
  let ?v0 = "voice_note_on id (Voice_init ''fm'') 60 100"
  let ?v2 = "voice_note_on id (Voice_init ''subtractive'') 60 100"
  let ?x = "env_note_on (ADSREnvelope_init 0.005 0.15 0.7 0.3)"
  let ?p = "\<lparr>voices = [?v0, Voice_init ''vector'', ?v2, Voice_init ''fm''], next_voice = 0\<rparr>"
  note T = note_off_precision [of ?p 2 60 ?v2 ?x]
  have h: "length (voices ?p) = 4" by simp
  have act: "engine_is_active (engine ?v2)"
    by (simp add: voice_note_on_def Voice_init_def make_engine_def ENGINE_CLASSES_def
        subtractive_note_on_def SubtractiveEngine_init_def trigger_note_def Let_def
        subtractive_is_active_def env_is_active_def env_note_on_def)
  have xs: "state ?x \<noteq> IDLE"
    by (simp add: env_note_on_def)
  have c2: "current_note ?v2 = Some 60" and c0: "current_note ?v0 = Some 60"
    by (simp_all add: voice_note_on_def)
  from T [OF h, THEN conjunct1]
  obtain p' where p': "note_off ?p (Some 2) 60 = Inr p'"
    and all: "\<forall>j<4. voices p' ! j =
                  (if j = nat (2 mod 4) \<and> current_note (voices ?p ! j) = Some 60
                   then voice_note_off (voices ?p ! j) else voices ?p ! j)"
    by blast
  from all have "voices p' ! 0 = (if (0::nat) = nat (2 mod 4) \<and> current_note (voices ?p ! 0) = Some 60
                   then voice_note_off (voices ?p ! 0) else voices ?p ! 0)"
    by simp
  then have v0: "voices p' ! 0 = ?v0"
    by simp
  from all have "voices p' ! 2 = (if (2::nat) = nat (2 mod 4) \<and> current_note (voices ?p ! 2) = Some 60
                   then voice_note_off (voices ?p ! 2) else voices ?p ! 2)"
    by simp
  then have v2: "voices p' ! 2 = voice_note_off ?v2"
    by (simp add: c2)
  have "engine_is_active (engine ?v2) \<longrightarrow>
      list_ex (\<lambda>x. state x = RELEASE) (envelopes (engine (voice_note_off ?v2)))"
    by (rule T [OF h, THEN conjunct2, THEN conjunct2, THEN conjunct2, THEN conjunct2,
          THEN conjunct1])
  from this act have rel: "list_ex (\<lambda>x. state x = RELEASE) (envelopes (engine (voice_note_off ?v2)))"
    by (rule mp)
  have att: "\<not> list_ex (\<lambda>x. state x = RELEASE) (envelopes (engine ?v2))"
    by (simp add: sounding_subtractive env_note_on_def)
  from rel att have ne: "voice_note_off ?v2 \<noteq> ?v2"
    by auto
  have "state (env_note_off ?x) = (if state ?x = IDLE then IDLE else RELEASE)"
    by (rule T [OF h, THEN conjunct2, THEN conjunct2, THEN conjunct2, THEN conjunct2,
          THEN conjunct2, THEN conjunct1])
  with xs have xr: "state (env_note_off ?x) = RELEASE"
    by simp
  have ex: "\<exists>p'. note_off ?p (Some 2) 60 = Inr p' \<and> voices p' ! 0 = ?v0
         \<and> voices p' ! 2 = voice_note_off ?v2 \<and> voices p' ! 2 \<noteq> ?v2
         \<and> list_ex (\<lambda>x. state x = RELEASE) (envelopes (engine (voices p' ! 2)))"
    using p' v0 v2 ne rel
    apply (intro exI [of _ p'] conjI)
    apply simp_all
    done
  from h act xs ex xr show ?thesis
    apply (intro conjI)
    apply assumption+
    done
qed

section \<open>Parameter names, indices and engine names\<close>

lemmas name_defs = split_underscore_def startswith_def int_of_string_def strip_def
  is_space_def is_digit_def digits_value_def py_index_def

text \<open>
  C1 (the code departs from it): a parameter name outside an engine's keys is to be a
  no-op. For the FM engine a name \<open>op{i}_{attr}\<close> with \<open>i\<close> beyond 3 raises
  IndexError, whatever the attribute, and \<open>i = -1\<close> writes operator 3.
\<close>

theorem fm_set_param_index_error:
  "fm_set_param FMEngine_init ''op4_ratio'' (PFloat 2) = Inl IndexError
   \<and> fm_set_param FMEngine_init ''op9_bogus'' (PFloat 2) = Inl IndexError
   \<and> fm_set_param FMEngine_init ''op-1_ratio'' (PFloat 2)
       = Inr (FMEngine_init\<lparr>ops := (ops FMEngine_init)[3 := FMOperator_init\<lparr>ratio := 2\<rparr>]\<rparr>)"
  by (simp add: fm_set_param_def name_defs FMEngine_init_def fm_set_attr_def)

lemma fm_set_param_not_op:
  "name \<noteq> ''algorithm'' \<Longrightarrow> length (split_underscore name) \<noteq> 2 \<or>
     \<not> startswith (hd (split_underscore name)) ''op'' \<Longrightarrow> fm_set_param e name v = Inr e"
  by (auto simp: fm_set_param_def split: list.splits)

lemma fm_set_param_bad_index:
  "split_underscore name = [p0, attr] \<Longrightarrow> name \<noteq> ''algorithm'' \<Longrightarrow>
     int_of_string (drop 2 p0) = Inl err \<Longrightarrow> fm_set_param e name v = Inr e"
  by (simp add: fm_set_param_def)

lemma fm_set_param_unknown_attr:
  assumes "split_underscore name = [p0, attr]" and "name \<noteq> ''algorithm''"
    and "startswith p0 ''op''" and "int_of_string (drop 2 p0) = Inr i"
    and "py_index (length (ops e)) i = Some j" and "j < length (ops e)"
    and "attr \<notin> {''ratio'', ''level'', ''feedback'', ''attack'', ''decay'', ''sustain'', ''release''}"
  shows "fm_set_param e name v = Inr e"
proof -
  have "fm_set_attr (ops e ! j) attr v = ops e ! j"
    using assms(7) by (simp add: fm_set_attr_def)
  then show ?thesis
    using assms by (simp add: fm_set_param_def)
qed

lemma fm_set_param_out_of_range:
  assumes "split_underscore name = [p0, attr]" and "name \<noteq> ''algorithm''"
    and "startswith p0 ''op''" and "int_of_string (drop 2 p0) = Inr i"
    and "length (ops e) = 4" and "i < - 4 \<or> 4 \<le> i"
  shows "fm_set_param e name v = Inl IndexError"
  using assms by (auto simp: fm_set_param_def py_index_def)

lemma vector_set_param_unknown:
  assumes "name \<notin> set vector_keys"
  shows "vector_set_param e name v = e"
proof -
  have "map_of osc_slots name = None"
    using assms by (simp add: osc_slots_def vector_keys_def)
  then show ?thesis
    using assms by (simp add: vector_set_param_def vector_keys_def)
qed

lemma subtractive_set_param_unknown:
  "name \<notin> set subtractive_keys \<Longrightarrow> subtractive_set_param e name v = e"
  by (simp add: subtractive_set_param_def subtractive_keys_def)

text \<open>
  C2 (the code departs from it): every voice index is to be reduced modulo 4. The
  note events do so (index 4 selects voice 0), but \<open>set_track_engine\<close> and
  \<open>set_track_param\<close> read \<open>voices[track_idx]\<close> as it comes and raise IndexError at
  index 4.
\<close>

theorem set_track_index_error:
  "set_track_engine VoicePool_init 4 ''fm'' = Inl IndexError
   \<and> set_track_param VoicePool_init 4 ''algorithm'' (PInt 1) = Inl IndexError
   \<and> select_voice VoicePool_init (Some 4) = Inr (0, VoicePool_init)"
  by (simp add: set_track_engine_def set_track_param_def select_voice_def VoicePool_init_def
      py_index_def N_VOICES_def)

lemma algorithm_wrapped:
  "fm_set_param e ''algorithm'' v = Inr (e\<lparr>algorithm := py_int v mod 6\<rparr>)
   \<and> 0 \<le> py_int v mod 6 \<and> py_int v mod 6 < 6"
  by (simp add: fm_set_param_def N_ALGORITHMS_def ALGORITHMS_def)

lemma wave_of_value_valid: "wave_of_value v \<in> set WAVE_NAMES"
  unfolding wave_of_value_def by (rule nth_mem) (simp add: WAVE_NAMES_def)

lemma filter_mode_of_value_valid: "filter_mode_of_value v \<in> {''lp'', ''hp'', ''bp''}"
proof -
  have "filter_mode_of_value v \<in> set [''lp'', ''hp'', ''bp'']"
    unfolding filter_mode_of_value_def by (rule nth_mem) simp
  then show ?thesis by simp
qed

lemma select_voice_wraps:
  "length (voices p) = 4 \<Longrightarrow> select_voice p (Some t) = Inr (nat (t mod 4), p)"
  by (simp add: select_voice_def py_index_mod4)

lemma make_engine_unknown:
  "name \<notin> {''fm'', ''vector'', ''subtractive''} \<Longrightarrow> make_engine name = FM FMEngine_init"
  by (simp add: make_engine_def ENGINE_CLASSES_def)

text \<open>
  C10 (as stated, refuted): a voice whose stored engine name is already the unknown
  name \<open>xyz\<close> and that holds note 60 keeps its engine, its note and its active flag
  when \<open>change_engine\<close> is called with \<open>xyz\<close> again.
\<close>

theorem change_engine_same_name_counterexample:
  "''xyz'' \<notin> {''fm'', ''vector'', ''subtractive''}
   \<and> current_note (change_engine (voice_note_on id (change_engine (Voice_init ''vector'') ''xyz'') 60 100) ''xyz'') = Some 60
   \<and> active (change_engine (voice_note_on id (change_engine (Voice_init ''vector'') ''xyz'') 60 100) ''xyz'')
   \<and> engine (change_engine (voice_note_on id (change_engine (Voice_init ''vector'') ''xyz'') 60 100) ''xyz'')
       \<noteq> FM FMEngine_init"
  by (simp add: change_engine_def voice_note_on_def Voice_init_def make_engine_def
      ENGINE_CLASSES_def fm_note_on_def FMEngine_init_def op_note_on_def FMOperator_init_def
      env_note_on_def ADSREnvelope_init_def)

text \<open>
  C10 (amended): \<open>make_engine\<close> with a name outside fm, vector, subtractive builds a
  fresh FM engine. \<open>change_engine\<close> with such a name installs a fresh FM engine and
  clears the note and the active flag when the name differs from the voice's stored
  engine name, and changes nothing when it equals it.
\<close>

theorem change_engine_unknown_name:
  assumes "name \<notin> {''fm'', ''vector'', ''subtractive''}"
  shows "make_engine name = FM FMEngine_init
       \<and> (name \<noteq> engine_name v \<longrightarrow>
            change_engine v name =
              v\<lparr>engine_name := name, engine := FM FMEngine_init,
                current_note := None, active := False\<rparr>)
       \<and> (name = engine_name v \<longrightarrow> change_engine v name = v)"
  using assms by (simp add: change_engine_def make_engine_unknown)

theorem change_engine_unknown_name_witness:
  "''xyz'' \<notin> {''fm'', ''vector'', ''subtractive''}
   \<and> make_engine ''xyz'' = FM FMEngine_init
   \<and> ''xyz'' \<noteq> engine_name (voice_note_on id (Voice_init ''vector'') 60 100)
   \<and> change_engine (voice_note_on id (Voice_init ''vector'') 60 100) ''xyz'' =
       (voice_note_on id (Voice_init ''vector'') 60 100)
         \<lparr>engine_name := ''xyz'', engine := FM FMEngine_init, current_note := None, active := False\<rparr>"
proof -
  have h: "''xyz'' \<notin> {''fm'', ''vector'', ''subtractive''}" by simp
  have n: "''xyz'' \<noteq> engine_name (voice_note_on id (Voice_init ''vector'') 60 100)"
    by (simp add: voice_note_on_def Voice_init_def)
  show ?thesis
    using h n change_engine_unknown_name [OF h, of "voice_note_on id (Voice_init ''vector'') 60 100"]
    by blast
qed

section \<open>FM algorithm 5 is additive synthesis\<close>

















end
